theory Spec2Isabelle
  imports Complex_Main "HOL-Library.Sublist"
begin

section \<open>JavaScript values\<close>

text \<open>
  The values that reach the handlers of \<^verbatim>\<open>server.js\<close> come from \<^verbatim>\<open>JSON.parse\<close> (the
  request body through \<^verbatim>\<open>express.json\<close>, the metadata artifact through
  \<^verbatim>\<open>readProductsFromConstant\<close>), so they are JSON values, plus \<^verbatim>\<open>undefined\<close> for a
  property that is absent. An object keeps its properties in insertion order. Numbers are
  the finite numbers JSON can carry; the handlers only test them against zero. NaN, which
  only \<^verbatim>\<open>parseFloat\<close> could produce and \<^verbatim>\<open>JSON.stringify\<close> prints as \<^verbatim>\<open>null\<close>, is not
  a value of its own.
\<close>

datatype jsval =
    JUndefined
  | JNull
  | JBool bool
  | JNum real
  | JStr string
  | JArr "jsval list"
  | JObj "(string \<times> jsval) list"

text \<open>JavaScript's ToBoolean: what \<^verbatim>\<open>!v\<close>, \<^verbatim>\<open>a && b\<close> and \<^verbatim>\<open>a || b\<close> test.\<close>

fun truthy :: "jsval \<Rightarrow> bool" where
  "truthy JUndefined = False"
| "truthy JNull = False"
| "truthy (JBool b) = b"
| "truthy (JNum r) = (r \<noteq> 0)"
| "truthy (JStr s) = (s \<noteq> [])"
| "truthy (JArr xs) = True"
| "truthy (JObj kvs) = True"

text \<open>\<^verbatim>\<open>v == null\<close>: the values on which a property access throws and \<^verbatim>\<open>?.\<close> stops.\<close>

fun nullish :: "jsval \<Rightarrow> bool" where
  "nullish JUndefined = True"
| "nullish JNull = True"
| "nullish v = False"

text \<open>Reading a property of an object given by its entries: \<^verbatim>\<open>undefined\<close> when the
  key is absent; where a key is written twice the later entry counts, as in an object
  literal and in \<^verbatim>\<open>JSON.parse\<close>.\<close>

definition field :: "(string \<times> jsval) list \<Rightarrow> string \<Rightarrow> jsval" where
  "field kvs k = (case map_of (rev kvs) k of None \<Rightarrow> JUndefined | Some v \<Rightarrow> v)"

text \<open>
  \<^verbatim>\<open>v.k\<close> for a value that is not nullish and a key that is no built-in property of
  strings, numbers, booleans or arrays (the handlers read \<^verbatim>\<open>id\<close>, \<^verbatim>\<open>fileName\<close> and
  \<^verbatim>\<open>fileData\<close> only): the object's own property, \<^verbatim>\<open>undefined\<close> on every other value.
\<close>

fun get_prop :: "jsval \<Rightarrow> string \<Rightarrow> jsval" where
  "get_prop (JObj kvs) k = field kvs k"
| "get_prop v k = JUndefined"

text \<open>
  Assigning a property: an existing key keeps its position and takes the new value, a new
  key goes last. The spread \<^verbatim>\<open>{...a, ...b}\<close> assigns the properties of \<^verbatim>\<open>b\<close> in order
  onto a copy of \<^verbatim>\<open>a\<close>.
\<close>

fun assign :: "string \<Rightarrow> jsval \<Rightarrow> (string \<times> jsval) list \<Rightarrow> (string \<times> jsval) list" where
  "assign k v [] = [(k, v)]"
| "assign k v ((k', v') # kvs) = (if k' = k then (k, v) # kvs else (k', v') # assign k v kvs)"

fun spread :: "(string \<times> jsval) list \<Rightarrow> (string \<times> jsval) list \<Rightarrow> (string \<times> jsval) list" where
  "spread obj [] = obj"
| "spread obj ((k, v) # kvs) = spread (assign k v obj) kvs"

section \<open>Strings\<close>

text \<open>
  A JavaScript string is modelled as a \<^typ>\<open>string\<close>, so its code units are the
  characters below 256. White space (\<^verbatim>\<open>\s\<close> of a regular expression, and what
  \<^verbatim>\<open>trim\<close> removes) is then tab, line feed, vertical tab, form feed, carriage return,
  space and the no-break space.
\<close>

definition is_space :: "char \<Rightarrow> bool" where
  "is_space c \<longleftrightarrow>
     c = CHR 0x09 \<or> c = CHR 0x0A \<or> c = CHR 0x0B \<or> c = CHR 0x0C \<or> c = CHR 0x0D \<or>
     c = CHR 0x20 \<or> c = CHR 0xA0"

text \<open>\<^verbatim>\<open>data.indexOf(m)\<close>: the first position where \<^verbatim>\<open>m\<close> starts, \<^verbatim>\<open>-1\<close> as \<open>None\<close>.\<close>

fun indexOf :: "string \<Rightarrow> string \<Rightarrow> nat option" where
  "indexOf [] m = (if m = [] then Some 0 else None)"
| "indexOf (x # xs) m =
     (if prefix m (x # xs) then Some 0 else map_option Suc (indexOf xs m))"

definition trim :: "string \<Rightarrow> string" where
  "trim s = rev (dropWhile is_space (rev (dropWhile is_space s)))"

definition endsWith :: "string \<Rightarrow> string \<Rightarrow> bool" where
  "endsWith s e \<longleftrightarrow> suffix e s"

text \<open>
  \<^verbatim>\<open>s.replace(/,\s*c/g, c)\<close> for a closing delimiter \<^verbatim>\<open>c\<close>: scanning from the left, a
  comma followed by any white space and then \<^verbatim>\<open>c\<close> is replaced by \<^verbatim>\<open>c\<close> alone and
  the scan goes on behind the match; every other character is copied.
\<close>

function replace_comma_before :: "char \<Rightarrow> string \<Rightarrow> string" where
  "replace_comma_before c [] = []"
| "replace_comma_before c (x # xs) =
     (if x = CHR '','' then
        (case dropWhile is_space xs of
           [] \<Rightarrow> x # replace_comma_before c xs
         | y # ys \<Rightarrow>
             if y = c then c # replace_comma_before c ys
             else x # replace_comma_before c xs)
      else x # replace_comma_before c xs)"
  by pat_completeness auto
termination
proof (relation "measure (\<lambda>(c, s). length s)")
  fix c :: char and x :: char and xs y ys
  assume "dropWhile is_space xs = y # ys"
  then have "length (y # ys) \<le> length xs"
    by (metis length_dropWhile_le)
  then show "((c, ys), (c, x # xs)) \<in> measure (\<lambda>(c, s). length s)"
    by simp
qed auto

section \<open>The metadata artifact\<close>

text \<open>
  \<^verbatim>\<open>constant.tsx\<close> is a text file: \<open>None\<close> when \<^verbatim>\<open>fs.readFile\<close> throws (the file is
  missing or unreadable), its content otherwise. \<^verbatim>\<open>JSON.parse\<close> is a built-in, taken as
  a parameter: \<open>None\<close> where it throws a SyntaxError.
\<close>

definition startMarker :: string where
  "startMarker = ''export const products = ''"

definition cleanedJson :: "string \<Rightarrow> string" where
  "cleanedJson jsonStr =
     replace_comma_before CHR ''}'' (replace_comma_before CHR '']'' jsonStr)"

definition readProductsFromConstant :: "(string \<Rightarrow> jsval option) \<Rightarrow> string option \<Rightarrow> jsval" where
  "readProductsFromConstant parse file =
     (case file of
        None \<Rightarrow> JArr []
      | Some data \<Rightarrow>
          (case indexOf data startMarker of
             None \<Rightarrow> JArr []
           | Some startIndex \<Rightarrow>
               let jsonStr = trim (drop (startIndex + length startMarker) data);
                   jsonStr = (if endsWith jsonStr '';'' then butlast jsonStr else jsonStr)
               in (case parse (cleanedJson jsonStr) of
                     None \<Rightarrow> JArr []
                   | Some products \<Rightarrow> products)))"

text \<open>
  \<^verbatim>\<open>fs.writeFile(path, content)\<close> opens the path itself for writing, which truncates the
  file, then writes the content. The storage medium can reject the call before the file
  is opened (nothing changes) or while the content is written (the file is left with the
  part written so far). The fault says which, for one call.
\<close>

datatype fs_fault = NoFault | OpenFails | WriteFails nat

datatype error = TypeError | FsError | MongoError

definition fs_writeFile :: "fs_fault \<Rightarrow> string \<Rightarrow> string option \<Rightarrow> (error + unit) \<times> string option" where
  "fs_writeFile fault content file =
     (case fault of
        NoFault \<Rightarrow> (Inr (), Some content)
      | OpenFails \<Rightarrow> (Inl FsError, file)
      | WriteFails n \<Rightarrow> (Inl FsError, Some (take n content)))"

text \<open>\<^verbatim>\<open>writeProductsToConstant\<close>: the catch block logs and rethrows, so the outcome of
  \<^verbatim>\<open>fs.writeFile\<close> is the outcome of the call. \<^verbatim>\<open>JSON.stringify(products, null, 2)\<close> is
  the built-in, taken as a parameter.\<close>

definition writeProductsToConstant ::
    "(jsval \<Rightarrow> string) \<Rightarrow> fs_fault \<Rightarrow> jsval \<Rightarrow> string option \<Rightarrow> (error + unit) \<times> string option" where
  "writeProductsToConstant stringify fault products file =
     (let content = ''export const products = '' @ stringify products @ '';''
      in fs_writeFile fault content file)"

section \<open>The stores\<close>

text \<open>
  A \<^verbatim>\<open>ProductFile\<close> document, keyed by its unique \<^verbatim>\<open>productId\<close>, and the
  \<^verbatim>\<open>downloadableFile\<close> of an order hold a file name and base64 data. The fields are kept
  as the values the calls pass (the schema's cast to String is not modelled).
\<close>

record file_ref =
  fileName :: jsval
  fileData :: jsval

record order =
  user :: string
  downloadableFile :: "file_ref option"
  isProductOrder :: bool
  productIds :: "string list"

record user_doc =
  wishlist :: "string list"

text \<open>The payload of a verified token (\<^verbatim>\<open>req.user\<close>).\<close>

record identity =
  user_id :: string
  role :: string

text \<open>Every call to a store is recorded, in the order the calls are issued.\<close>

datatype event =
    ReadFile
  | WriteFile
  | BlobCreate string
  | BlobUpsert string
  | BlobDelete string
  | BlobFind string
  | UserFind string
  | OrderFind string

record sys =
  constant_tsx :: "string option"
  blobs :: "string \<rightharpoonup> file_ref"
  users :: "string \<rightharpoonup> user_doc"
  orders :: "string \<rightharpoonup> order"
  trace :: "event list"

text \<open>The built-ins the handlers call, as parameters.\<close>

record builtins =
  JSON_parse :: "string \<Rightarrow> jsval option"
  JSON_stringify :: "jsval \<Rightarrow> string"
  parseFloat :: "jsval \<Rightarrow> jsval"

text \<open>What the storage does to the two writing calls of one request: whether MongoDB
  rejects the call on \<^verbatim>\<open>ProductFile\<close> (the collection is then unchanged), and what
  \<^verbatim>\<open>fs.writeFile\<close> does.\<close>

record faults =
  blob_fault :: bool
  write_fault :: fs_fault

definition emit :: "event \<Rightarrow> sys \<Rightarrow> sys" where
  "emit e st = st\<lparr>trace := trace st @ [e]\<rparr>"

definition readProducts :: "builtins \<Rightarrow> sys \<Rightarrow> jsval \<times> sys" where
  "readProducts bi st = (readProductsFromConstant (JSON_parse bi) (constant_tsx st), emit ReadFile st)"

definition writeProducts :: "builtins \<Rightarrow> fs_fault \<Rightarrow> jsval \<Rightarrow> sys \<Rightarrow> (error + unit) \<times> sys" where
  "writeProducts bi fault products st =
     (case writeProductsToConstant (JSON_stringify bi) fault products (constant_tsx st) of
        (r, file') \<Rightarrow> (r, emit WriteFile (st\<lparr>constant_tsx := file'\<rparr>)))"

text \<open>\<^verbatim>\<open>ProductFile.create\<close>: the unique index on \<^verbatim>\<open>productId\<close> rejects a second document
  for the same product.\<close>

definition ProductFile_create :: "bool \<Rightarrow> string \<Rightarrow> file_ref \<Rightarrow> sys \<Rightarrow> (error + unit) \<times> sys" where
  "ProductFile_create fault productId f st =
     (if fault \<or> blobs st productId \<noteq> None then (Inl MongoError, emit (BlobCreate productId) st)
      else (Inr (), emit (BlobCreate productId) (st\<lparr>blobs := (blobs st)(productId \<mapsto> f)\<rparr>)))"

text \<open>\<^verbatim>\<open>ProductFile.findOneAndUpdate({productId}, {fileName, fileData}, {upsert: true})\<close>:
  the two fields are an update of the document of the product. A field that is
  \<^verbatim>\<open>undefined\<close> is dropped from the update, so an existing document keeps the value it
  has there; without a document, one is created from the fields that are set.\<close>

definition updated_file :: "file_ref option \<Rightarrow> file_ref \<Rightarrow> file_ref" where
  "updated_file old f =
     (let doc = (case old of None \<Rightarrow> \<lparr>fileName = JUndefined, fileData = JUndefined\<rparr> | Some d \<Rightarrow> d)
      in \<lparr>fileName = (if fileName f = JUndefined then fileName doc else fileName f),
          fileData = (if fileData f = JUndefined then fileData doc else fileData f)\<rparr>)"

definition ProductFile_findOneAndUpdate ::
    "bool \<Rightarrow> string \<Rightarrow> file_ref \<Rightarrow> sys \<Rightarrow> (error + unit) \<times> sys" where
  "ProductFile_findOneAndUpdate fault productId f st =
     (if fault then (Inl MongoError, emit (BlobUpsert productId) st)
      else (Inr (), emit (BlobUpsert productId)
              (st\<lparr>blobs := (blobs st)(productId \<mapsto> updated_file (blobs st productId) f)\<rparr>)))"

text \<open>\<^verbatim>\<open>ProductFile.deleteOne({productId})\<close>.\<close>

definition ProductFile_deleteOne :: "bool \<Rightarrow> string \<Rightarrow> sys \<Rightarrow> (error + unit) \<times> sys" where
  "ProductFile_deleteOne fault productId st =
     (if fault then (Inl MongoError, emit (BlobDelete productId) st)
      else (Inr (), emit (BlobDelete productId) (st\<lparr>blobs := (blobs st)(productId := None)\<rparr>)))"

text \<open>The reading queries: \<^verbatim>\<open>ProductFile.findOne\<close>, \<^verbatim>\<open>User.findById\<close>,
  \<^verbatim>\<open>Order.findById\<close>, on a database that answers, for ids it can cast (the ids of
  tokens and of routes that the server issued itself).\<close>

definition ProductFile_findOne :: "string \<Rightarrow> sys \<Rightarrow> file_ref option \<times> sys" where
  "ProductFile_findOne productId st = (blobs st productId, emit (BlobFind productId) st)"

definition User_findById :: "string \<Rightarrow> sys \<Rightarrow> user_doc option \<times> sys" where
  "User_findById i st = (users st i, emit (UserFind i) st)"

definition Order_findById :: "string \<Rightarrow> sys \<Rightarrow> order option \<times> sys" where
  "Order_findById i st = (orders st i, emit (OrderFind i) st)"

section \<open>Responses\<close>

datatype response =
    Json nat jsval
  | Message nat string
  | Error500 string error
  | SendStatus nat
  | Attachment jsval jsval

text \<open>
  \<^verbatim>\<open>Json n v\<close> is \<^verbatim>\<open>res.status(n).json(v)\<close>, \<^verbatim>\<open>Message n m\<close> is
  \<^verbatim>\<open>res.status(n).json({ message: m })\<close>, \<^verbatim>\<open>Error500 m e\<close> is what a catch block sends for
  the exception \<^verbatim>\<open>e\<close>, \<^verbatim>\<open>Attachment name data\<close> is the ZIP download: the file name of
  the Content-Disposition header and the base64 data the body is decoded from.
\<close>

section \<open>The catalog routes\<close>

subsection \<open>GET /api/products\<close>

text \<open>The keys of the index properties a spread copies from an array or a string.\<close>

fun decimal :: "nat \<Rightarrow> string" where
  "decimal n =
     (if n < 10 then [char_of (48 + n)] else decimal (n div 10) @ [char_of (48 + n mod 10)])"

declare decimal.simps [simp del]

definition indexed :: "jsval list \<Rightarrow> (string \<times> jsval) list" where
  "indexed xs = map (\<lambda>i. (decimal i, xs ! i)) [0 ..< length xs]"

text \<open>\<^verbatim>\<open>{...p}\<close>: the own enumerable properties of \<^verbatim>\<open>p\<close>, none for \<^verbatim>\<open>null\<close>,
  \<^verbatim>\<open>undefined\<close>, a number or a boolean.\<close>

fun spread_of :: "jsval \<Rightarrow> (string \<times> jsval) list" where
  "spread_of (JObj kvs) = spread [] kvs"
| "spread_of (JArr xs) = indexed xs"
| "spread_of (JStr s) = indexed (map (\<lambda>c. JStr [c]) s)"
| "spread_of v = []"

text \<open>\<^verbatim>\<open>p.id\<close>: a TypeError on \<^verbatim>\<open>null\<close> and \<^verbatim>\<open>undefined\<close>.\<close>

definition id_of :: "jsval \<Rightarrow> error + jsval" where
  "id_of p = (if nullish p then Inl TypeError else Inr (get_prop p ''id''))"

text \<open>\<^verbatim>\<open>wishlistSet.has(v)\<close> for a set of strings.\<close>

fun has :: "string list \<Rightarrow> jsval \<Rightarrow> bool" where
  "has ws (JStr s) = (s \<in> set ws)"
| "has ws v = False"

text \<open>\<^verbatim>\<open>products.map(p => ({ ...p, wishlisted: wishlistSet.has(p.id) }))\<close>: the first
  element that throws ends the map.\<close>

fun mark_wishlisted :: "string list \<Rightarrow> jsval list \<Rightarrow> error + jsval list" where
  "mark_wishlisted ws [] = Inr []"
| "mark_wishlisted ws (p # ps) =
     (case id_of p of
        Inl e \<Rightarrow> Inl e
      | Inr i \<Rightarrow>
          (case mark_wishlisted ws ps of
             Inl e \<Rightarrow> Inl e
           | Inr qs \<Rightarrow> Inr (JObj (assign ''wishlisted'' (JBool (has ws i)) (spread_of p)) # qs)))"

definition mark_not_wishlisted :: "jsval list \<Rightarrow> jsval list" where
  "mark_not_wishlisted ps =
     map (\<lambda>p. JObj (assign ''wishlisted'' (JBool False) (spread_of p))) ps"

definition get_products :: "builtins \<Rightarrow> identity option \<Rightarrow> sys \<Rightarrow> response \<times> sys" where
  "get_products bi req_user st =
     (case readProducts bi st of
        (products, st1) \<Rightarrow>
          (case req_user of
             Some u \<Rightarrow>
               (case User_findById (user_id u) st1 of
                  (usr, st2) \<Rightarrow>
                    let wishlistSet = (case usr of None \<Rightarrow> [] | Some d \<Rightarrow> wishlist d)
                    in (case products of
                          JArr ps \<Rightarrow>
                            (case mark_wishlisted wishlistSet ps of
                               Inl e \<Rightarrow> (Error500 ''Error fetching products'' e, st2)
                             | Inr productDocs \<Rightarrow> (Json 200 (JArr productDocs), st2))
                        | _ \<Rightarrow> (Error500 ''Error fetching products'' TypeError, st2)))
           | None \<Rightarrow>
               (case products of
                  JArr ps \<Rightarrow> (Json 200 (JArr (mark_not_wishlisted ps)), st1)
                | _ \<Rightarrow> (Error500 ''Error fetching products'' TypeError, st1))))"

subsection \<open>POST /api/products\<close>

text \<open>\<^verbatim>\<open>products.unshift(newProduct)\<close>: a TypeError unless \<^verbatim>\<open>products\<close> is an array.\<close>

fun unshift :: "jsval \<Rightarrow> jsval \<Rightarrow> error + jsval" where
  "unshift newProduct (JArr ps) = Inr (JArr (newProduct # ps))"
| "unshift newProduct v = Inl TypeError"

fun isArray :: "jsval \<Rightarrow> bool" where
  "isArray (JArr xs) = True"
| "isArray v = False"

definition newProduct_of :: "builtins \<Rightarrow> string \<Rightarrow> (string \<times> jsval) list \<Rightarrow> jsval" where
  "newProduct_of bi productId body =
     (let features = field body ''features'';
          images = field body ''images'';
          type = field body ''type'';
          downloadableFile = field body ''downloadableFile'';
          name = (if nullish downloadableFile then JUndefined
                  else get_prop downloadableFile ''fileName'')
      in JObj
           [(''id'', JStr productId),
            (''title'', field body ''title''),
            (''description'', field body ''description''),
            (''features'', if isArray features then features else JArr []),
            (''images'', if isArray images then images else JArr []),
            (''price'', parseFloat bi (field body ''price'')),
            (''category'', field body ''category''),
            (''type'', if truthy type then type else JStr ''dashboard''),
            (''downloadableFileName'', if truthy name then name else JNull)])"

text \<open>Whether the body carries a payload: \<^verbatim>\<open>downloadableFile && downloadableFile.fileData\<close>.\<close>

definition has_payload :: "(string \<times> jsval) list \<Rightarrow> bool" where
  "has_payload body \<longleftrightarrow>
     truthy (field body ''downloadableFile'') \<and>
     truthy (get_prop (field body ''downloadableFile'') ''fileData'')"

definition payload :: "(string \<times> jsval) list \<Rightarrow> file_ref" where
  "payload body =
     \<lparr>fileName = get_prop (field body ''downloadableFile'') ''fileName'',
      fileData = get_prop (field body ''downloadableFile'') ''fileData''\<rparr>"

text \<open>The handler, with the id \<^verbatim>\<open>crypto.randomUUID()\<close> returns as a parameter.\<close>

definition add_product ::
    "builtins \<Rightarrow> faults \<Rightarrow> string \<Rightarrow> (string \<times> jsval) list \<Rightarrow> sys \<Rightarrow> response \<times> sys" where
  "add_product bi flt productId body st =
     (if \<not> truthy (field body ''title'') \<or> \<not> truthy (field body ''description'') \<or>
         \<not> truthy (field body ''images'') \<or> \<not> truthy (field body ''price'') \<or>
         \<not> truthy (field body ''category'')
      then (Message 400 ''Missing required product fields'', st)
      else
        (case readProducts bi st of
           (products, st1) \<Rightarrow>
             (case (if has_payload body
                    then ProductFile_create (blob_fault flt) productId (payload body) st1
                    else (Inr (), st1)) of
                (Inl e, st2) \<Rightarrow> (Error500 ''Error adding product'' e, st2)
              | (Inr _, st2) \<Rightarrow>
                  let newProduct = newProduct_of bi productId body
                  in (case unshift newProduct products of
                        Inl e \<Rightarrow> (Error500 ''Error adding product'' e, st2)
                      | Inr products' \<Rightarrow>
                          (case writeProducts bi (write_fault flt) products' st2 of
                             (Inl e, st3) \<Rightarrow> (Error500 ''Error adding product'' e, st3)
                           | (Inr _, st3) \<Rightarrow> (Json 201 newProduct, st3))))))"

subsection \<open>PUT /api/products/:id\<close>

text \<open>\<^verbatim>\<open>products.findIndex(p => p.id === id)\<close> for a string \<^verbatim>\<open>id\<close>; \<open>None\<close> is \<^verbatim>\<open>-1\<close>.\<close>

fun findIndex :: "string \<Rightarrow> jsval list \<Rightarrow> error + nat option" where
  "findIndex i [] = Inr None"
| "findIndex i (p # ps) =
     (case id_of p of
        Inl e \<Rightarrow> Inl e
      | Inr v \<Rightarrow>
          if v = JStr i then Inr (Some 0)
          else (case findIndex i ps of
                  Inl e \<Rightarrow> Inl e
                | Inr r \<Rightarrow> Inr (map_option Suc r)))"

text \<open>\<^verbatim>\<open>const { downloadableFile, ...metadata } = req.body\<close>.\<close>

definition metadata_of :: "(string \<times> jsval) list \<Rightarrow> (string \<times> jsval) list" where
  "metadata_of body = filter (\<lambda>(k, v). k \<noteq> ''downloadableFile'') (spread [] body)"

text \<open>Step 1 of the handler: the store call the payload asks for, and the metadata with
  the file name it sets.\<close>

definition update_blob ::
    "bool \<Rightarrow> string \<Rightarrow> (string \<times> jsval) list \<Rightarrow> sys \<Rightarrow> (error + (string \<times> jsval) list) \<times> sys" where
  "update_blob fault i body st =
     (let downloadableFile = field body ''downloadableFile''; metadata = metadata_of body
      in if has_payload body then
           (case ProductFile_findOneAndUpdate fault i (payload body) st of
              (Inl e, st') \<Rightarrow> (Inl e, st')
            | (Inr _, st') \<Rightarrow>
                (Inr (assign ''downloadableFileName'' (get_prop downloadableFile ''fileName'')
                        metadata), st'))
         else if downloadableFile = JNull then
           (case ProductFile_deleteOne fault i st of
              (Inl e, st') \<Rightarrow> (Inl e, st')
            | (Inr _, st') \<Rightarrow> (Inr (assign ''downloadableFileName'' JNull metadata), st'))
         else (Inr metadata, st))"

text \<open>\<^verbatim>\<open>{ ...products[index], ...metadata, id }\<close>.\<close>

definition updatedProduct_of :: "jsval \<Rightarrow> (string \<times> jsval) list \<Rightarrow> string \<Rightarrow> jsval" where
  "updatedProduct_of p metadata i =
     JObj (assign ''id'' (JStr i) (spread (spread_of p) metadata))"

definition update_product ::
    "builtins \<Rightarrow> faults \<Rightarrow> string \<Rightarrow> (string \<times> jsval) list \<Rightarrow> sys \<Rightarrow> response \<times> sys" where
  "update_product bi flt i body st =
     (case readProducts bi st of
        (products, st1) \<Rightarrow>
          (case products of
             JArr ps \<Rightarrow>
               (case findIndex i ps of
                  Inl e \<Rightarrow> (Error500 ''Error updating product'' e, st1)
                | Inr None \<Rightarrow> (Message 404 ''Product not found'', st1)
                | Inr (Some index) \<Rightarrow>
                    (case update_blob (blob_fault flt) i body st1 of
                       (Inl e, st2) \<Rightarrow> (Error500 ''Error updating product'' e, st2)
                     | (Inr metadata, st2) \<Rightarrow>
                         let updatedProduct = updatedProduct_of (ps ! index) metadata i
                         in (case writeProducts bi (write_fault flt)
                                   (JArr (ps[index := updatedProduct])) st2 of
                               (Inl e, st3) \<Rightarrow> (Error500 ''Error updating product'' e, st3)
                             | (Inr _, st3) \<Rightarrow> (Json 200 updatedProduct, st3))))
           | _ \<Rightarrow> (Error500 ''Error updating product'' TypeError, st1)))"

subsection \<open>GET /api/orders/:id/download\<close>

text \<open>\<^verbatim>\<open>order.downloadableFile?.fileData\<close> and the name beside it.\<close>

definition order_file :: "order \<Rightarrow> jsval \<times> jsval" where
  "order_file ord =
     (case downloadableFile ord of
        None \<Rightarrow> (JUndefined, JUndefined)
      | Some f \<Rightarrow> (fileName f, fileData f))"

text \<open>The two local variables \<^verbatim>\<open>fileName\<close> and \<^verbatim>\<open>fileData\<close> after the lookup.\<close>

definition resolve_file :: "order \<Rightarrow> sys \<Rightarrow> (jsval \<times> jsval) \<times> sys" where
  "resolve_file ord st =
     (if truthy (snd (order_file ord)) then (order_file ord, st)
      else
        let productsInOrder = (if isProductOrder ord then productIds ord else [])
        in (case productsInOrder of
              [] \<Rightarrow> ((JUndefined, JUndefined), st)
            | first # rest \<Rightarrow>
                (case ProductFile_findOne first st of
                   (None, st') \<Rightarrow> ((JUndefined, JUndefined), st')
                 | (Some firstProductFile, st') \<Rightarrow>
                     ((fileName firstProductFile, fileData firstProductFile), st'))))"

definition download_order :: "identity \<Rightarrow> string \<Rightarrow> sys \<Rightarrow> response \<times> sys" where
  "download_order req_user i st =
     (case Order_findById i st of
        (None, st1) \<Rightarrow> (Message 404 ''Order not found'', st1)
      | (Some ord, st1) \<Rightarrow>
          if user ord \<noteq> user_id req_user \<and> role req_user \<noteq> ''admin'' then (SendStatus 403, st1)
          else
            (case resolve_file ord st1 of
               ((name, data), st2) \<Rightarrow>
                 if \<not> truthy data then (Message 404 ''No deliverable file found.'', st2)
                 else (Attachment (if truthy name then name else JStr ''download.zip'') data, st2)))"

subsection \<open>POST /api/products between its awaits\<close>

text \<open>
  The handler gives control back at each \<^verbatim>\<open>await\<close>, and the code takes no lock: between
  two awaits of one request, steps of other requests can run. A request is therefore
  also modelled by where it stands: arrived, after the artifact was read (holding the
  sequence it read), after the blob step, or answered. One step runs the handler up to its next
  await; reading and writing the artifact are taken as atomic.
\<close>

datatype add_task =
    Arrived
  | HasRead jsval
  | BlobStored jsval
  | Responded response

record add_request =
  req_faults :: faults
  req_uuid :: string
  req_body :: "(string \<times> jsval) list"

definition add_step :: "builtins \<Rightarrow> add_request \<Rightarrow> add_task \<Rightarrow> sys \<Rightarrow> add_task \<times> sys" where
  "add_step bi r task st =
     (let body = req_body r in
      case task of
        Arrived \<Rightarrow>
          if \<not> truthy (field body ''title'') \<or> \<not> truthy (field body ''description'') \<or>
             \<not> truthy (field body ''images'') \<or> \<not> truthy (field body ''price'') \<or>
             \<not> truthy (field body ''category'')
          then (Responded (Message 400 ''Missing required product fields''), st)
          else (case readProducts bi st of (products, st1) \<Rightarrow> (HasRead products, st1))
      | HasRead products \<Rightarrow>
          (case (if has_payload body
                 then ProductFile_create (blob_fault (req_faults r)) (req_uuid r) (payload body) st
                 else (Inr (), st)) of
             (Inl e, st2) \<Rightarrow> (Responded (Error500 ''Error adding product'' e), st2)
           | (Inr _, st2) \<Rightarrow> (BlobStored products, st2))
      | BlobStored products \<Rightarrow>
          let newProduct = newProduct_of bi (req_uuid r) body
          in (case unshift newProduct products of
                Inl e \<Rightarrow> (Responded (Error500 ''Error adding product'' e), st)
              | Inr products' \<Rightarrow>
                  (case writeProducts bi (write_fault (req_faults r)) products' st of
                     (Inl e, st3) \<Rightarrow> (Responded (Error500 ''Error adding product'' e), st3)
                   | (Inr _, st3) \<Rightarrow> (Responded (Json 201 newProduct), st3)))
      | Responded res \<Rightarrow> (Responded res, st))"

text \<open>Two requests in flight and a schedule: \<open>True\<close> lets the first request take its
  next step, \<open>False\<close> the second.\<close>

fun interleave ::
    "builtins \<Rightarrow> add_request \<Rightarrow> add_request \<Rightarrow> bool list \<Rightarrow> add_task \<times> add_task \<times> sys \<Rightarrow>
     add_task \<times> add_task \<times> sys" where
  "interleave bi a b [] c = c"
| "interleave bi a b (True # sched) (ta, tb, st) =
     (case add_step bi a ta st of (ta', st') \<Rightarrow> interleave bi a b sched (ta', tb, st'))"
| "interleave bi a b (False # sched) (ta, tb, st) =
     (case add_step bi b tb st of (tb', st') \<Rightarrow> interleave bi a b sched (ta, tb', st'))"

text \<open>The listing the artifact denotes.\<close>

definition listing :: "builtins \<Rightarrow> sys \<Rightarrow> jsval" where
  "listing bi st = readProductsFromConstant (JSON_parse bi) (constant_tsx st)"

section \<open>Built-ins for the closed examples\<close>

text \<open>
  Every general theorem below holds for arbitrary built-ins. The closed examples need
  concrete ones: a printer that lays a value out as \<^verbatim>\<open>JSON.stringify(v, null, 2)\<close> does
  and a parser for the same fragment of JSON (strings with the escapes of the quote and
  the backslash only, unsigned integers for numbers), and \<^verbatim>\<open>parseFloat\<close> on numbers and
  on strings of digits.
\<close>

definition quote :: "string \<Rightarrow> string" where
  "quote s =
     CHR 0x22 # concat (map (\<lambda>c. if c = CHR 0x22 \<or> c = CHR 0x5C then [CHR 0x5C, c] else [c]) s)
       @ [CHR 0x22]"

fun join :: "string \<Rightarrow> string list \<Rightarrow> string" where
  "join sep [] = []"
| "join sep [x] = x"
| "join sep (x # y # ys) = x @ sep @ join sep (y # ys)"

definition number_text :: "real \<Rightarrow> string" where
  "number_text r =
     (if r = of_int \<lfloor>r\<rfloor> then (if r < 0 then ''-'' else []) @ decimal (nat \<bar>\<lfloor>r\<rfloor>\<bar>)
      else ''null'')"

fun stringify2 :: "nat \<Rightarrow> jsval \<Rightarrow> string" where
  "stringify2 n JUndefined = ''null''"
| "stringify2 n JNull = ''null''"
| "stringify2 n (JBool b) = (if b then ''true'' else ''false'')"
| "stringify2 n (JNum r) = number_text r"
| "stringify2 n (JStr s) = quote s"
| "stringify2 n (JArr xs) =
     (if xs = [] then ''[]''
      else ''['' @ [CHR 0x0A]
        @ join ('','' @ [CHR 0x0A]) (map (\<lambda>x. replicate (n + 2) CHR '' '' @ stringify2 (n + 2) x) xs)
        @ [CHR 0x0A] @ replicate n CHR '' '' @ '']'')"
| "stringify2 n (JObj kvs) =
     (if filter (\<lambda>kv. snd kv \<noteq> JUndefined) kvs = [] then ''{}''
      else ''{'' @ [CHR 0x0A]
        @ join ('','' @ [CHR 0x0A])
            (map (\<lambda>kv. replicate (n + 2) CHR '' '' @ quote (fst kv) @ '': '' @ stringify2 (n + 2) (snd kv))
               (filter (\<lambda>kv. snd kv \<noteq> JUndefined) kvs))
        @ [CHR 0x0A] @ replicate n CHR '' '' @ ''}'')"

definition is_digit :: "char \<Rightarrow> bool" where
  "is_digit c \<longleftrightarrow> c \<in> set ''0123456789''"

fun parse_string :: "string \<Rightarrow> (string \<times> string) option" where
  "parse_string [] = None"
| "parse_string (c # r) =
     (if c = CHR 0x22 then Some ([], r)
      else if c = CHR 0x5C then
        (case r of
           [] \<Rightarrow> None
         | e # r' \<Rightarrow>
             if e = CHR 0x22 \<or> e = CHR 0x5C
             then map_option (\<lambda>(s, t). (e # s, t)) (parse_string r')
             else None)
      else map_option (\<lambda>(s, t). (c # s, t)) (parse_string r))"

definition json_ws :: "char \<Rightarrow> bool" where
  "json_ws c \<longleftrightarrow> c = CHR 0x20 \<or> c = CHR 0x09 \<or> c = CHR 0x0A \<or> c = CHR 0x0D"

definition digits_value :: "string \<Rightarrow> nat" where
  "digits_value ds = foldl (\<lambda>a c. 10 * a + (of_char c - (48::nat))) 0 ds"

fun parse_value :: "nat \<Rightarrow> string \<Rightarrow> (jsval \<times> string) option"
  and parse_elements :: "nat \<Rightarrow> string \<Rightarrow> (jsval list \<times> string) option"
  and parse_members :: "nat \<Rightarrow> string \<Rightarrow> ((string \<times> jsval) list \<times> string) option" where
  "parse_value 0 s = None"
| "parse_value (Suc n) s =
     (case dropWhile json_ws s of
        [] \<Rightarrow> None
      | c # r \<Rightarrow>
          if prefix ''null'' (c # r) then Some (JNull, drop 4 (c # r))
          else if prefix ''true'' (c # r) then Some (JBool True, drop 4 (c # r))
          else if prefix ''false'' (c # r) then Some (JBool False, drop 5 (c # r))
          else if c = CHR 0x22 then map_option (\<lambda>(str, t). (JStr str, t)) (parse_string r)
          else if is_digit c then
            Some (JNum (real (digits_value (takeWhile is_digit (c # r)))), dropWhile is_digit r)
          else if c = CHR ''['' then
            (case dropWhile json_ws r of
               [] \<Rightarrow> None
             | d # t \<Rightarrow>
                 if d = CHR '']'' then Some (JArr [], t)
                 else map_option (\<lambda>(vs, t'). (JArr vs, t')) (parse_elements n r))
          else if c = CHR ''{'' then
            (case dropWhile json_ws r of
               [] \<Rightarrow> None
             | d # t \<Rightarrow>
                 if d = CHR ''}'' then Some (JObj [], t)
                 else map_option (\<lambda>(kvs, t'). (JObj kvs, t')) (parse_members n r))
          else None)"
| "parse_elements 0 s = None"
| "parse_elements (Suc n) s =
     (case parse_value n s of
        None \<Rightarrow> None
      | Some (v, r) \<Rightarrow>
          (case dropWhile json_ws r of
             [] \<Rightarrow> None
           | c # t \<Rightarrow>
               if c = CHR '','' then map_option (\<lambda>(vs, t'). (v # vs, t')) (parse_elements n t)
               else if c = CHR '']'' then Some ([v], t)
               else None))"
| "parse_members 0 s = None"
| "parse_members (Suc n) s =
     (case dropWhile json_ws s of
        [] \<Rightarrow> None
      | q # r \<Rightarrow>
          if q \<noteq> CHR 0x22 then None
          else
            (case parse_string r of
               None \<Rightarrow> None
             | Some (k, r1) \<Rightarrow>
                 (case dropWhile json_ws r1 of
                    [] \<Rightarrow> None
                  | colon # r2 \<Rightarrow>
                      if colon \<noteq> CHR '':'' then None
                      else
                        (case parse_value n r2 of
                           None \<Rightarrow> None
                         | Some (v, r3) \<Rightarrow>
                             (case dropWhile json_ws r3 of
                                [] \<Rightarrow> None
                              | c # t \<Rightarrow>
                                  if c = CHR '','' then
                                    map_option (\<lambda>(kvs, t'). ((k, v) # kvs, t')) (parse_members n t)
                                  else if c = CHR ''}'' then Some ([(k, v)], t)
                                  else None)))))"

definition json_parse :: "string \<Rightarrow> jsval option" where
  "json_parse s =
     (case parse_value (2 * length s + 2) s of
        None \<Rightarrow> None
      | Some (v, r) \<Rightarrow> if dropWhile json_ws r = [] then Some v else None)"

definition parse_float :: "jsval \<Rightarrow> jsval" where
  "parse_float v =
     (case v of
        JNum r \<Rightarrow> JNum r
      | JStr s \<Rightarrow>
          if takeWhile is_digit s = [] then JNull
          else JNum (real (digits_value (takeWhile is_digit s)))
      | _ \<Rightarrow> JNull)"

definition js :: builtins where
  "js = \<lparr>JSON_parse = json_parse, JSON_stringify = stringify2 0, parseFloat = parse_float\<rparr>"

section \<open>Terms of the statements\<close>

text \<open>The two steps of \<^verbatim>\<open>readProductsFromConstant\<close> between the marker and the
  cleaning, by name: \<^verbatim>\<open>trim\<close> removes white space at both ends (\<open>rtrim\<close> is its right
  half), and one final semicolon is dropped.\<close>

definition rtrim :: "string \<Rightarrow> string" where
  "rtrim s = rev (dropWhile is_space (rev s))"

definition strip_semicolon :: "string \<Rightarrow> string" where
  "strip_semicolon s = (if endsWith s '';'' then butlast s else s)"

text \<open>Whether the last character of a text that is not white space is a comma.\<close>

definition ends_with_comma :: "string \<Rightarrow> bool" where
  "ends_with_comma s =
     (case dropWhile is_space (rev s) of [] \<Rightarrow> False | x # r \<Rightarrow> x = CHR '','')"

section \<open>Example data\<close>

text \<open>A catalog of one product with its blob and one user, an empty catalog, and
  requests to add products, for the closed examples.\<close>

definition kit :: jsval where
  "kit = JObj [(''id'', JStr ''p1''), (''title'', JStr ''Starter kit''), (''price'', JNum 10),
               (''downloadableFileName'', JStr ''kit.zip'')]"

definition shop :: sys where
  "shop = \<lparr>constant_tsx = Some (''export const products = '' @ stringify2 0 (JArr [kit]) @ '';''),
            blobs = [''p1'' \<mapsto> \<lparr>fileName = JStr ''kit.zip'', fileData = JStr ''UEsDBA==''\<rparr>],
            users = [''u1'' \<mapsto> \<lparr>wishlist = [''p1'']\<rparr>],
            orders = Map.empty,
            trace = []\<rparr>"

definition no_faults :: faults where
  "no_faults = \<lparr>blob_fault = False, write_fault = NoFault\<rparr>"

definition kit_request :: "(string \<times> jsval) list" where
  "kit_request =
     [(''title'', JStr ''Theme''), (''description'', JStr ''A theme''),
      (''images'', JArr [JStr ''t.png'']), (''price'', JNum 5), (''category'', JStr ''web''),
      (''downloadableFile'', JObj [(''fileName'', JStr ''theme.zip''), (''fileData'', JStr ''UEsDBC=='')])]"

definition empty_shop :: sys where
  "empty_shop = \<lparr>constant_tsx = Some ''export const products = [];'', blobs = Map.empty,
                  users = Map.empty, orders = Map.empty, trace = []\<rparr>"

definition request_a :: add_request where
  "request_a = \<lparr>req_faults = no_faults, req_uuid = ''a'',
     req_body = [(''title'', JStr ''A''), (''description'', JStr ''first''),
                 (''images'', JArr [JStr ''a.png'']), (''price'', JNum 10),
                 (''category'', JStr ''web'')]\<rparr>"

definition request_b :: add_request where
  "request_b = \<lparr>req_faults = no_faults, req_uuid = ''b'',
     req_body = [(''title'', JStr ''B''), (''description'', JStr ''second''),
                 (''images'', JArr [JStr ''b.png'']), (''price'', JNum 20),
                 (''category'', JStr ''web'')]\<rparr>"

definition product_a :: jsval where
  "product_a = JObj [(''id'', JStr ''a''), (''title'', JStr ''A''), (''description'', JStr ''first''),
     (''features'', JArr []), (''images'', JArr [JStr ''a.png'']), (''price'', JNum 10),
     (''category'', JStr ''web''), (''type'', JStr ''dashboard''), (''downloadableFileName'', JNull)]"

definition product_b :: jsval where
  "product_b = JObj [(''id'', JStr ''b''), (''title'', JStr ''B''), (''description'', JStr ''second''),
     (''features'', JArr []), (''images'', JArr [JStr ''b.png'']), (''price'', JNum 20),
     (''category'', JStr ''web''), (''type'', JStr ''dashboard''), (''downloadableFileName'', JNull)]"

text \<open>Four orders and one blob, for the downloads: a product order whose first product
  has no blob, an order with a file of its own, a product order whose first product has a
  blob, and an order that is no product order.\<close>

definition depot :: sys where
  "depot =
     \<lparr>constant_tsx = None,
      blobs = [''p2'' \<mapsto> \<lparr>fileName = JStr ''two.zip'', fileData = JStr ''UEsDBA==''\<rparr>],
      users = Map.empty,
      orders =
        [''o1'' \<mapsto> \<lparr>user = ''u1'', downloadableFile = None, isProductOrder = True,
                      productIds = [''p1'', ''p2'']\<rparr>,
         ''o2'' \<mapsto> \<lparr>user = ''u1'',
                      downloadableFile =
                        Some \<lparr>fileName = JStr ''custom.zip'', fileData = JStr ''UEsDBB==''\<rparr>,
                      isProductOrder = True, productIds = [''p2'']\<rparr>,
         ''o3'' \<mapsto> \<lparr>user = ''u2'', downloadableFile = None, isProductOrder = True,
                      productIds = [''p2'', ''p1'']\<rparr>,
         ''o4'' \<mapsto> \<lparr>user = ''u1'', downloadableFile = None, isProductOrder = False,
                      productIds = []\<rparr>],
      trace = []\<rparr>"

section \<open>Objects\<close>

text \<open>Assignment and spread keep the keys of an object distinct, and a lookup in the
  result is the lookup in the map they build.\<close>

lemma map_of_assign: "map_of (assign k v a) = (map_of a)(k \<mapsto> v)"
  by (induction a) (auto simp: fun_eq_iff)

lemma map_fst_assign:
  "map fst (assign k v a) = (if k \<in> set (map fst a) then map fst a else map fst a @ [k])"
  by (induction a) (force+)

lemma keys_assign: "set (map fst (assign k v a)) = insert k (set (map fst a))"
  unfolding map_fst_assign by auto

lemma distinct_assign: "distinct (map fst a) \<Longrightarrow> distinct (map fst (assign k v a))"
proof (induction a)
  case Nil
  then show ?case by simp
next
  case (Cons kv a)
  obtain k' v' where kv: "kv = (k', v')" by (cases kv)
  from Cons have d: "distinct (map fst (assign k v a))" and n: "k' \<notin> set (map fst a)"
    by (simp_all add: kv)
  show ?case
  proof (cases "k' = k")
    case True
    with Cons.prems show ?thesis by (simp add: kv)
  next
    case False
    with n have "k' \<notin> set (map fst (assign k v a))"
      unfolding keys_assign by simp
    with d False show ?thesis by (simp add: kv)
  qed
qed

lemma distinct_spread: "distinct (map fst a) \<Longrightarrow> distinct (map fst (spread a b))"
  by (induction b arbitrary: a) (auto simp: distinct_assign)

lemma map_of_spread: "map_of (spread a b) = map_of a ++ map_of (rev b)"
proof (induction b arbitrary: a)
  case Nil
  then show ?case by simp
next
  case (Cons kv b)
  obtain k v where kv: "kv = (k, v)" by (cases kv)
  show ?case
    by (simp add: kv Cons.IH map_of_assign fun_eq_iff map_add_def split: option.splits)
qed

lemma map_of_rev_distinct: "distinct (map fst a) \<Longrightarrow> map_of (rev a) = map_of a"
proof (induction a)
  case Nil
  then show ?case by simp
next
  case (Cons kv a)
  obtain k v where kv: "kv = (k, v)" by (cases kv)
  from Cons.prems have "map_of a k = None"
    by (simp add: kv map_of_eq_None_iff)
  with Cons show ?case
    by (auto simp: kv fun_eq_iff map_add_def split: option.splits)
qed

lemma field_spread_Nil: "field (spread [] b) k = field b k"
proof -
  have "distinct (map fst (spread [] b))" by (simp add: distinct_spread)
  then have "map_of (rev (spread [] b)) = map_of (spread [] b)" by (rule map_of_rev_distinct)
  then show ?thesis by (simp add: field_def map_of_spread)
qed

lemma field_assign:
  "distinct (map fst a) \<Longrightarrow> field (assign k v a) k' = (if k' = k then v else field a k')"
  by (simp add: field_def map_of_rev_distinct distinct_assign map_of_assign)

lemma field_spread:
  "distinct (map fst a) \<Longrightarrow>
   field (spread a b) k = (case map_of (rev b) k of None \<Rightarrow> field a k | Some v \<Rightarrow> v)"
  by (simp add: field_def map_of_rev_distinct distinct_spread map_of_spread map_add_def
      split: option.splits)

lemma assign_fresh: "k \<notin> set (map fst a) \<Longrightarrow> assign k v a = a @ [(k, v)]"
  by (induction a) auto

lemma field_snoc: "field (a @ [(k, v)]) k = v"
  by (simp add: field_def)

section \<open>The catalog of the examples\<close>

lemma listing_shop: "listing js shop = JArr [kit]"
  by code_simp

lemma findIndex_shop: "findIndex ''p1'' [kit] = Inr (Some 0)"
  by (simp add: kit_def id_of_def field_def)

section \<open>Listing with a credential that has no user record\<close>

lemma last_decimal: "last (decimal n) = char_of (48 + n mod 10)"
  by (subst decimal.simps) (simp del: decimal.simps)

lemma decimal_not_wishlisted: "decimal n \<noteq> ''wishlisted''"
proof
  assume "decimal n = ''wishlisted''"
  then have "last (decimal n) = CHR ''d''" by simp
  then have "char_of (48 + n mod 10) = CHR ''d''" by (simp only: last_decimal)
  then have "(of_char (char_of (48 + n mod 10)) :: nat) = of_char CHR ''d''" by (rule arg_cong)
  then have eq: "(48 + n mod 10) mod 256 = (100::nat)" by simp
  have small: "n mod 10 < 10" by simp
  then have "(48 + n mod 10) mod 256 = 48 + n mod 10" by simp
  with eq small show False by linarith
qed

lemma wishlisted_fresh: "''wishlisted'' \<notin> set (map fst (indexed xs))"
  using decimal_not_wishlisted[symmetric] by (auto simp: indexed_def)

lemma wishlisted_flag: "field (assign ''wishlisted'' v (spread_of p)) ''wishlisted'' = v"
proof (cases p)
  case (JObj kvs)
  then show ?thesis by (simp add: field_assign distinct_spread)
next
  case (JArr xs)
  then show ?thesis by (simp add: assign_fresh[OF wishlisted_fresh] field_snoc)
next
  case (JStr s)
  then show ?thesis by (simp add: assign_fresh[OF wishlisted_fresh] field_snoc)
qed (simp_all add: field_def)

lemma has_empty: "has [] v = False"
  by (cases v) simp_all

lemma mark_wishlisted_without_user:
  "\<forall>p\<in>set ps. \<not> nullish p \<Longrightarrow> mark_wishlisted [] ps = Inr (mark_not_wishlisted ps)"
  by (induction ps) (simp_all add: id_of_def mark_not_wishlisted_def has_empty)

text \<open>
  C10. A listing request that carries a valid credential whose user id has no record in
  the user store succeeds, and every returned product carries \<^verbatim>\<open>wishlisted = false\<close>,
  exactly as for an anonymous caller. The artifact denotes a sequence \<open>ps\<close> of product
  records (no entry is \<^verbatim>\<open>null\<close>); the answer is that sequence, in order, with the flag
  set to false on every entry.
\<close>

theorem list_without_user_record:
  assumes no_record: "users st (user_id u) = None"
    and products: "listing bi st = JArr ps"
    and records: "\<forall>p\<in>set ps. \<not> nullish p"
  shows "fst (get_products bi (Some u) st) = Json 200 (JArr (mark_not_wishlisted ps))
       \<and> fst (get_products bi (Some u) st) = fst (get_products bi None st)
       \<and> length (mark_not_wishlisted ps) = length ps
       \<and> (\<forall>q\<in>set (mark_not_wishlisted ps). get_prop q ''wishlisted'' = JBool False)"
proof -
  have flags: "\<forall>q\<in>set (mark_not_wishlisted ps). get_prop q ''wishlisted'' = JBool False"
    by (auto simp: mark_not_wishlisted_def wishlisted_flag)
  have anon: "fst (get_products bi None st) = Json 200 (JArr (mark_not_wishlisted ps))"
    using products by (simp add: get_products_def readProducts_def listing_def)
  have auth: "fst (get_products bi (Some u) st) = Json 200 (JArr (mark_not_wishlisted ps))"
    using products no_record mark_wishlisted_without_user[OF records]
    by (simp add: get_products_def readProducts_def listing_def User_findById_def emit_def)
  show ?thesis using flags anon auth by (simp add: mark_not_wishlisted_def)
qed

text \<open>The catalog of the examples, listed for a user id that has no record.\<close>

theorem list_without_user_record_witness:
  "users shop ''u404'' = None
   \<and> listing js shop = JArr [kit]
   \<and> fst (get_products js (Some \<lparr>user_id = ''u404'', role = ''customer''\<rparr>) shop) =
       Json 200 (JArr [JObj [(''id'', JStr ''p1''), (''title'', JStr ''Starter kit''),
                             (''price'', JNum 10), (''downloadableFileName'', JStr ''kit.zip''),
                             (''wishlisted'', JBool False)]])"
proof -
  have h1: "users shop (user_id \<lparr>user_id = ''u404'', role = ''customer''\<rparr>) = None"
    by (simp add: shop_def)
  have h3: "\<forall>p\<in>set [kit]. \<not> nullish p" by (simp add: kit_def)
  from list_without_user_record[OF h1 listing_shop h3] h1 listing_shop show ?thesis
    by (simp add: mark_not_wishlisted_def kit_def)
qed

section \<open>Updating a product\<close>

lemma findIndex_absent:
  "\<forall>p\<in>set ps. \<not> nullish p \<and> get_prop p ''id'' \<noteq> JStr i \<Longrightarrow> findIndex i ps = Inr None"
  by (induction ps) (simp_all add: id_of_def)

text \<open>
  C9. An update whose id is absent from the metadata sequence answers 404 "Product not
  found" before any call to the blob store: whatever the body carries (a new payload, an
  explicit clear) and whatever the storage would do to a write, the blob store and the
  artifact are unchanged, and the only store call made is the read of the artifact.
\<close>

theorem update_absent_id:
  assumes products: "listing bi st = JArr ps"
    and absent: "\<forall>p\<in>set ps. \<not> nullish p \<and> get_prop p ''id'' \<noteq> JStr i"
  shows "update_product bi flt i body st = (Message 404 ''Product not found'', emit ReadFile st)
       \<and> constant_tsx (snd (update_product bi flt i body st)) = constant_tsx st
       \<and> blobs (snd (update_product bi flt i body st)) = blobs st
       \<and> trace (snd (update_product bi flt i body st)) = trace st @ [ReadFile]"
  using products findIndex_absent[OF absent]
  by (simp add: update_product_def readProducts_def listing_def emit_def)

text \<open>An update of an unknown id that asks to clear the payload: the blob of the
  product in the catalog is still there.\<close>

theorem update_absent_id_witness:
  "listing js shop = JArr [kit]
   \<and> get_prop kit ''id'' = JStr ''p1''
   \<and> fst (update_product js no_faults ''p9'' [(''downloadableFile'', JNull)] shop) =
       Message 404 ''Product not found''
   \<and> blobs (snd (update_product js no_faults ''p9'' [(''downloadableFile'', JNull)] shop)) ''p1'' =
       Some \<lparr>fileName = JStr ''kit.zip'', fileData = JStr ''UEsDBA==''\<rparr>
   \<and> constant_tsx (snd (update_product js no_faults ''p9'' [(''downloadableFile'', JNull)] shop)) =
       constant_tsx shop"
proof -
  have absent: "\<forall>p\<in>set [kit]. \<not> nullish p \<and> get_prop p ''id'' \<noteq> JStr ''p9''"
    by (simp add: kit_def field_def)
  have blob: "blobs shop ''p1'' = Some \<lparr>fileName = JStr ''kit.zip'', fileData = JStr ''UEsDBA==''\<rparr>"
    by (simp add: shop_def)
  have ident: "get_prop kit ''id'' = JStr ''p1''"
    by (simp add: kit_def field_def)
  from update_absent_id[OF listing_shop absent, of no_faults "[(''downloadableFile'', JNull)]"]
    listing_shop blob ident
  show ?thesis by (simp add: emit_def)
qed

lemma findIndex_found:
  "findIndex i ps = Inr (Some n) \<Longrightarrow> n < length ps \<and> (\<exists>kvs. ps ! n = JObj kvs \<and> field kvs ''id'' = JStr i)"
proof (induction ps arbitrary: n)
  case Nil
  then show ?case by simp
next
  case (Cons p ps)
  show ?case
  proof (cases "id_of p")
    case (Inl e)
    with Cons.prems show ?thesis by simp
  next
    case (Inr v)
    show ?thesis
    proof (cases "v = JStr i")
      case True
      with Inr Cons.prems have n: "n = 0" by simp
      from Inr True have "\<exists>kvs. p = JObj kvs \<and> field kvs ''id'' = JStr i"
        by (cases p) (auto simp: id_of_def split: if_splits)
      with n show ?thesis by simp
    next
      case False
      with Inr Cons.prems obtain m where m: "findIndex i ps = Inr (Some m)" and n: "n = Suc m"
        by (auto split: sum.splits option.splits)
      from Cons.IH[OF m] n show ?thesis by simp
    qed
  qed
qed

lemma distinct_metadata_of: "distinct (map fst (metadata_of body))"
  by (simp add: metadata_of_def distinct_map_filter distinct_spread)

lemma map_of_metadata_of:
  "map_of (metadata_of body) k = (if k = ''downloadableFile'' then None else map_of (rev body) k)"
proof -
  have "map_of (filter (\<lambda>(k, v). k \<noteq> ''downloadableFile'') xs) k =
        (if k = ''downloadableFile'' then None else map_of xs k)" for xs :: "(string \<times> jsval) list"
    by (induction xs) auto
  then show ?thesis by (simp add: metadata_of_def map_of_spread)
qed

text \<open>The merge of the update: the id is the one of the request; any other key takes
  the supplied value when the metadata has the key, the record's value otherwise.\<close>

lemma field_updatedProduct:
  assumes "distinct (map fst md)"
  shows "get_prop (updatedProduct_of (JObj kvs) md i) k =
           (if k = ''id'' then JStr i
            else case map_of md k of None \<Rightarrow> field kvs k | Some v \<Rightarrow> v)"
proof -
  have d: "distinct (map fst (spread (spread [] kvs) md))"
    by (simp add: distinct_spread)
  show ?thesis
    using assms
    by (simp add: updatedProduct_of_def field_assign[OF d] field_spread distinct_spread
        field_spread_Nil map_of_rev_distinct split: option.splits)
qed

lemma update_product_found:
  assumes "listing bi st = JArr ps" and "findIndex i ps = Inr (Some index)"
  shows "update_product bi flt i body st =
           (case update_blob (blob_fault flt) i body (emit ReadFile st) of
              (Inl e, st2) \<Rightarrow> (Error500 ''Error updating product'' e, st2)
            | (Inr metadata, st2) \<Rightarrow>
                (case writeProducts bi (write_fault flt)
                        (JArr (ps[index := updatedProduct_of (ps ! index) metadata i])) st2 of
                   (Inl e, st3) \<Rightarrow> (Error500 ''Error updating product'' e, st3)
                 | (Inr _, st3) \<Rightarrow> (Json 200 (updatedProduct_of (ps ! index) metadata i), st3)))"
  using assms
  by (simp add: update_product_def readProducts_def listing_def Let_def split: prod.splits sum.splits)

lemma writeProducts_ok:
  "writeProducts bi NoFault products st =
     (Inr (), emit WriteFile
        (st\<lparr>constant_tsx := Some (''export const products = '' @ JSON_stringify bi products @ '';'')\<rparr>))"
  by (simp add: writeProducts_def writeProductsToConstant_def fs_writeFile_def)





lemma update_with_payload:
  assumes "listing bi st = JArr ps" and "findIndex i ps = Inr (Some index)"
    and "blob_fault flt = False" and "write_fault flt = NoFault" and "has_payload body"
  shows "fst (update_product bi flt i body st) =
           Json 200 (updatedProduct_of (ps ! index)
             (assign ''downloadableFileName''
                (get_prop (field body ''downloadableFile'') ''fileName'') (metadata_of body)) i)"
    and "trace (snd (update_product bi flt i body st)) =
           trace st @ [ReadFile, BlobUpsert i, WriteFile]"
    and "blobs (snd (update_product bi flt i body st)) =
           (blobs st)(i \<mapsto> updated_file (blobs st i) (payload body))"
    and "constant_tsx (snd (update_product bi flt i body st)) =
           Some (''export const products = '' @
             JSON_stringify bi (JArr (ps[index := updatedProduct_of (ps ! index)
               (assign ''downloadableFileName''
                  (get_prop (field body ''downloadableFile'') ''fileName'') (metadata_of body)) i]))
             @ '';'')"
  using assms(3-5) unfolding update_product_found[OF assms(1,2)]
  by (simp_all add: update_blob_def ProductFile_findOneAndUpdate_def writeProducts_ok emit_def
      Let_def)

lemma update_cleared_payload:
  assumes "listing bi st = JArr ps" and "findIndex i ps = Inr (Some index)"
    and "blob_fault flt = False" and "write_fault flt = NoFault"
    and "field body ''downloadableFile'' = JNull"
  shows "fst (update_product bi flt i body st) =
           Json 200 (updatedProduct_of (ps ! index)
             (assign ''downloadableFileName'' JNull (metadata_of body)) i)"
    and "trace (snd (update_product bi flt i body st)) =
           trace st @ [ReadFile, BlobDelete i, WriteFile]"
    and "blobs (snd (update_product bi flt i body st)) = (blobs st)(i := None)"
    and "constant_tsx (snd (update_product bi flt i body st)) =
           Some (''export const products = '' @
             JSON_stringify bi (JArr (ps[index := updatedProduct_of (ps ! index)
               (assign ''downloadableFileName'' JNull (metadata_of body)) i]))
             @ '';'')"
  using assms(3-5) unfolding update_product_found[OF assms(1,2)]
  by (simp_all add: update_blob_def ProductFile_deleteOne_def writeProducts_ok emit_def
      Let_def has_payload_def)

lemma update_without_payload:
  assumes "listing bi st = JArr ps" and "findIndex i ps = Inr (Some index)"
    and "write_fault flt = NoFault"
    and "field body ''downloadableFile'' = JUndefined"
  shows "fst (update_product bi flt i body st) =
           Json 200 (updatedProduct_of (ps ! index) (metadata_of body) i)"
    and "trace (snd (update_product bi flt i body st)) = trace st @ [ReadFile, WriteFile]"
    and "blobs (snd (update_product bi flt i body st)) = blobs st"
    and "constant_tsx (snd (update_product bi flt i body st)) =
           Some (''export const products = '' @
             JSON_stringify bi (JArr (ps[index := updatedProduct_of (ps ! index)
               (metadata_of body) i]))
             @ '';'')"
  using assms(3,4) unfolding update_product_found[OF assms(1,2)]
  by (simp_all add: update_blob_def writeProducts_ok emit_def Let_def has_payload_def)

lemma fileName_after_assign:
  "get_prop (updatedProduct_of (JObj kvs) (assign ''downloadableFileName'' v (metadata_of body)) i)
     ''downloadableFileName'' = v"
  by (simp add: field_updatedProduct distinct_assign distinct_metadata_of map_of_assign)

lemma fileName_after_merge:
  "get_prop (updatedProduct_of (JObj kvs) (metadata_of body) i) ''downloadableFileName'' =
     (if ''downloadableFileName'' \<in> fst ` set body then field body ''downloadableFileName''
      else field kvs ''downloadableFileName'')"
proof -
  have "(map_of (rev body) ''downloadableFileName'' = None) =
        (''downloadableFileName'' \<notin> fst ` set body)"
    by (simp add: map_of_eq_None_iff)
  then show ?thesis
    by (auto simp: field_updatedProduct distinct_metadata_of map_of_metadata_of field_def
        split: option.splits)
qed

text \<open>
  C7, as the code has it. The claim as stated fails in its third case: the body's own
  fields are merged into the record, so an update without a payload key that names a
  \<^verbatim>\<open>downloadableFileName\<close> stores that name while the blob stays as it was. The
  amended claim, for an update of an existing id that the stores accept, with \<open>q\<close> the
  record that is answered and written to the artifact in place of the old one:

  \<^item> a new payload with data: the blob store upsert is the first call after the read,
    before the write of the artifact; it sets the data, and the file name when the
    payload has one, on the product's blob; \<^verbatim>\<open>downloadableFileName\<close> of \<open>q\<close> is the
    payload's file name;
  \<^item> a payload that is explicitly \<^verbatim>\<open>null\<close>: the blob is deleted first, and
    \<^verbatim>\<open>downloadableFileName\<close> of \<open>q\<close> is \<^verbatim>\<open>null\<close>;
  \<^item> no payload key in the body: no call is made to the blob store and the blob is
    untouched; \<^verbatim>\<open>downloadableFileName\<close> of \<open>q\<close> is the record's value, unless the
    body's own fields supply one, which is then stored.
\<close>

theorem update_payload_cases:
  assumes products: "listing bi st = JArr ps"
    and found: "findIndex i ps = Inr (Some index)"
    and accepted: "blob_fault flt = False" "write_fault flt = NoFault"
  shows "(has_payload body \<longrightarrow>
            trace (snd (update_product bi flt i body st)) =
              trace st @ [ReadFile, BlobUpsert i, WriteFile]
          \<and> blobs (snd (update_product bi flt i body st)) =
              (blobs st)(i \<mapsto> updated_file (blobs st i) (payload body))
          \<and> fst (update_product bi flt i body st) =
              Json 200 (updatedProduct_of (ps ! index)
                (assign ''downloadableFileName''
                   (get_prop (field body ''downloadableFile'') ''fileName'') (metadata_of body)) i)
          \<and> constant_tsx (snd (update_product bi flt i body st)) =
              Some (''export const products = '' @
                JSON_stringify bi (JArr (ps[index := updatedProduct_of (ps ! index)
                  (assign ''downloadableFileName''
                     (get_prop (field body ''downloadableFile'') ''fileName'') (metadata_of body)) i]))
                @ '';'')
          \<and> get_prop (updatedProduct_of (ps ! index)
                (assign ''downloadableFileName''
                   (get_prop (field body ''downloadableFile'') ''fileName'') (metadata_of body)) i)
               ''downloadableFileName'' = get_prop (field body ''downloadableFile'') ''fileName'')
       \<and> (field body ''downloadableFile'' = JNull \<longrightarrow>
            trace (snd (update_product bi flt i body st)) =
              trace st @ [ReadFile, BlobDelete i, WriteFile]
          \<and> blobs (snd (update_product bi flt i body st)) = (blobs st)(i := None)
          \<and> fst (update_product bi flt i body st) =
              Json 200 (updatedProduct_of (ps ! index)
                (assign ''downloadableFileName'' JNull (metadata_of body)) i)
          \<and> constant_tsx (snd (update_product bi flt i body st)) =
              Some (''export const products = '' @
                JSON_stringify bi (JArr (ps[index := updatedProduct_of (ps ! index)
                  (assign ''downloadableFileName'' JNull (metadata_of body)) i]))
                @ '';'')
          \<and> get_prop (updatedProduct_of (ps ! index)
                (assign ''downloadableFileName'' JNull (metadata_of body)) i)
               ''downloadableFileName'' = JNull)
       \<and> (''downloadableFile'' \<notin> fst ` set body \<longrightarrow>
            trace (snd (update_product bi flt i body st)) = trace st @ [ReadFile, WriteFile]
          \<and> blobs (snd (update_product bi flt i body st)) = blobs st
          \<and> fst (update_product bi flt i body st) =
              Json 200 (updatedProduct_of (ps ! index) (metadata_of body) i)
          \<and> constant_tsx (snd (update_product bi flt i body st)) =
              Some (''export const products = '' @
                JSON_stringify bi (JArr (ps[index := updatedProduct_of (ps ! index)
                  (metadata_of body) i]))
                @ '';'')
          \<and> get_prop (updatedProduct_of (ps ! index) (metadata_of body) i)
               ''downloadableFileName'' =
              (if ''downloadableFileName'' \<in> fst ` set body then field body ''downloadableFileName''
               else get_prop (ps ! index) ''downloadableFileName''))"
proof -
  from findIndex_found[OF found] obtain kvs where old: "ps ! index = JObj kvs"
    by blast
  have absent: "field body ''downloadableFile'' = JUndefined"
    if "''downloadableFile'' \<notin> fst ` set body"
    using that by (simp add: field_def map_of_eq_None_iff[THEN iffD2])
  have new: "has_payload body \<longrightarrow>
            trace (snd (update_product bi flt i body st)) =
              trace st @ [ReadFile, BlobUpsert i, WriteFile]
          \<and> blobs (snd (update_product bi flt i body st)) =
              (blobs st)(i \<mapsto> updated_file (blobs st i) (payload body))
          \<and> fst (update_product bi flt i body st) =
              Json 200 (updatedProduct_of (ps ! index)
                (assign ''downloadableFileName''
                   (get_prop (field body ''downloadableFile'') ''fileName'') (metadata_of body)) i)
          \<and> constant_tsx (snd (update_product bi flt i body st)) =
              Some (''export const products = '' @
                JSON_stringify bi (JArr (ps[index := updatedProduct_of (ps ! index)
                  (assign ''downloadableFileName''
                     (get_prop (field body ''downloadableFile'') ''fileName'') (metadata_of body)) i]))
                @ '';'')
          \<and> get_prop (updatedProduct_of (ps ! index)
                (assign ''downloadableFileName''
                   (get_prop (field body ''downloadableFile'') ''fileName'') (metadata_of body)) i)
               ''downloadableFileName'' = get_prop (field body ''downloadableFile'') ''fileName''"
    using update_with_payload[OF products found accepted, of body]
    by (simp add: old fileName_after_assign)
  have cleared: "field body ''downloadableFile'' = JNull \<longrightarrow>
            trace (snd (update_product bi flt i body st)) =
              trace st @ [ReadFile, BlobDelete i, WriteFile]
          \<and> blobs (snd (update_product bi flt i body st)) = (blobs st)(i := None)
          \<and> fst (update_product bi flt i body st) =
              Json 200 (updatedProduct_of (ps ! index)
                (assign ''downloadableFileName'' JNull (metadata_of body)) i)
          \<and> constant_tsx (snd (update_product bi flt i body st)) =
              Some (''export const products = '' @
                JSON_stringify bi (JArr (ps[index := updatedProduct_of (ps ! index)
                  (assign ''downloadableFileName'' JNull (metadata_of body)) i]))
                @ '';'')
          \<and> get_prop (updatedProduct_of (ps ! index)
                (assign ''downloadableFileName'' JNull (metadata_of body)) i)
               ''downloadableFileName'' = JNull"
    using update_cleared_payload[OF products found accepted, of body]
    by (simp add: old fileName_after_assign)
  have none: "''downloadableFile'' \<notin> fst ` set body \<longrightarrow>
            trace (snd (update_product bi flt i body st)) = trace st @ [ReadFile, WriteFile]
          \<and> blobs (snd (update_product bi flt i body st)) = blobs st
          \<and> fst (update_product bi flt i body st) =
              Json 200 (updatedProduct_of (ps ! index) (metadata_of body) i)
          \<and> constant_tsx (snd (update_product bi flt i body st)) =
              Some (''export const products = '' @
                JSON_stringify bi (JArr (ps[index := updatedProduct_of (ps ! index)
                  (metadata_of body) i]))
                @ '';'')
          \<and> get_prop (updatedProduct_of (ps ! index) (metadata_of body) i)
               ''downloadableFileName'' =
              (if ''downloadableFileName'' \<in> fst ` set body then field body ''downloadableFileName''
               else get_prop (ps ! index) ''downloadableFileName'')"
    using update_without_payload[OF products found accepted(2), of body] absent
    by (simp add: old fileName_after_merge)
  from new cleared none show ?thesis by (intro conjI)
qed

text \<open>The cases on the catalog of the examples: a new payload, a payload with data and
  no file name (the blob keeps the name it had), a cleared payload, and no payload.\<close>

theorem update_payload_cases_witness:
  "listing js shop = JArr [kit]
   \<and> findIndex ''p1'' [kit] = Inr (Some 0)
   \<and> trace (snd (update_product js no_faults ''p1''
        [(''downloadableFile'', JObj [(''fileName'', JStr ''v2.zip''), (''fileData'', JStr ''UEsDBB=='')])]
        shop)) = [ReadFile, BlobUpsert ''p1'', WriteFile]
   \<and> blobs (snd (update_product js no_faults ''p1''
        [(''downloadableFile'', JObj [(''fileName'', JStr ''v2.zip''), (''fileData'', JStr ''UEsDBB=='')])]
        shop)) ''p1'' = Some \<lparr>fileName = JStr ''v2.zip'', fileData = JStr ''UEsDBB==''\<rparr>
   \<and> constant_tsx (snd (update_product js no_faults ''p1''
        [(''downloadableFile'', JObj [(''fileName'', JStr ''v2.zip''), (''fileData'', JStr ''UEsDBB=='')])]
        shop)) =
       Some (''export const products = '' @
         stringify2 0 (JArr [JObj [(''id'', JStr ''p1''), (''title'', JStr ''Starter kit''),
           (''price'', JNum 10), (''downloadableFileName'', JStr ''v2.zip'')]]) @ '';'')
   \<and> blobs (snd (update_product js no_faults ''p1''
        [(''downloadableFile'', JObj [(''fileData'', JStr ''UEsDBD=='')])] shop)) ''p1'' =
       Some \<lparr>fileName = JStr ''kit.zip'', fileData = JStr ''UEsDBD==''\<rparr>
   \<and> trace (snd (update_product js no_faults ''p1'' [(''downloadableFile'', JNull)] shop)) =
        [ReadFile, BlobDelete ''p1'', WriteFile]
   \<and> blobs (snd (update_product js no_faults ''p1'' [(''downloadableFile'', JNull)] shop)) ''p1'' = None
   \<and> constant_tsx (snd (update_product js no_faults ''p1'' [(''downloadableFile'', JNull)] shop)) =
       Some (''export const products = '' @
         stringify2 0 (JArr [JObj [(''id'', JStr ''p1''), (''title'', JStr ''Starter kit''),
           (''price'', JNum 10), (''downloadableFileName'', JNull)]]) @ '';'')
   \<and> trace (snd (update_product js no_faults ''p1'' [(''title'', JStr ''Pro kit'')] shop)) =
        [ReadFile, WriteFile]
   \<and> blobs (snd (update_product js no_faults ''p1'' [(''title'', JStr ''Pro kit'')] shop)) ''p1'' =
        Some \<lparr>fileName = JStr ''kit.zip'', fileData = JStr ''UEsDBA==''\<rparr>
   \<and> constant_tsx (snd (update_product js no_faults ''p1'' [(''title'', JStr ''Pro kit'')] shop)) =
       Some (''export const products = '' @
         stringify2 0 (JArr [JObj [(''id'', JStr ''p1''), (''title'', JStr ''Pro kit''),
           (''price'', JNum 10), (''downloadableFileName'', JStr ''kit.zip'')]]) @ '';'')"
proof -
  let ?new = "[(''downloadableFile'', JObj [(''fileName'', JStr ''v2.zip''), (''fileData'', JStr ''UEsDBB=='')])]"
  let ?data = "[(''downloadableFile'', JObj [(''fileData'', JStr ''UEsDBD=='')])]"
  let ?clear = "[(''downloadableFile'', JNull)]"
  let ?plain = "[(''title'', JStr ''Pro kit'')]"
  have nf: "blob_fault no_faults = False" "write_fault no_faults = NoFault"
    by (simp_all add: no_faults_def)
  have new: "has_payload ?new"
    "payload ?new = \<lparr>fileName = JStr ''v2.zip'', fileData = JStr ''UEsDBB==''\<rparr>"
    by (simp_all add: has_payload_def payload_def field_def)
  have data: "has_payload ?data"
    "payload ?data = \<lparr>fileName = JUndefined, fileData = JStr ''UEsDBD==''\<rparr>"
    by (simp_all add: has_payload_def payload_def field_def)
  have cleared: "field ?clear ''downloadableFile'' = JNull"
    by (simp add: field_def)
  have absent: "''downloadableFile'' \<notin> fst ` set ?plain"
    by simp
  have start: "trace shop = []"
    "blobs shop ''p1'' = Some \<lparr>fileName = JStr ''kit.zip'', fileData = JStr ''UEsDBA==''\<rparr>"
    by (simp_all add: shop_def)
  have records:
    "updatedProduct_of kit (assign ''downloadableFileName''
        (get_prop (field ?new ''downloadableFile'') ''fileName'') (metadata_of ?new)) ''p1'' =
      JObj [(''id'', JStr ''p1''), (''title'', JStr ''Starter kit''), (''price'', JNum 10),
            (''downloadableFileName'', JStr ''v2.zip'')]"
    "updatedProduct_of kit (assign ''downloadableFileName'' JNull (metadata_of ?clear)) ''p1'' =
      JObj [(''id'', JStr ''p1''), (''title'', JStr ''Starter kit''), (''price'', JNum 10),
            (''downloadableFileName'', JNull)]"
    "updatedProduct_of kit (metadata_of ?plain) ''p1'' =
      JObj [(''id'', JStr ''p1''), (''title'', JStr ''Pro kit''), (''price'', JNum 10),
            (''downloadableFileName'', JStr ''kit.zip'')]"
    by (simp_all add: updatedProduct_of_def metadata_of_def kit_def field_def)
  have printer: "JSON_stringify js = stringify2 0"
    by (simp add: js_def)
  note a = update_payload_cases[OF listing_shop findIndex_shop nf, of ?new]
  note b = update_payload_cases[OF listing_shop findIndex_shop nf, of ?data]
  note c = update_payload_cases[OF listing_shop findIndex_shop nf, of ?clear]
  note d = update_payload_cases[OF listing_shop findIndex_shop nf, of ?plain]
  have ra: "trace (snd (update_product js no_faults ''p1'' ?new shop)) =
        [ReadFile, BlobUpsert ''p1'', WriteFile]"
    "blobs (snd (update_product js no_faults ''p1'' ?new shop)) ''p1'' =
        Some \<lparr>fileName = JStr ''v2.zip'', fileData = JStr ''UEsDBB==''\<rparr>"
    "constant_tsx (snd (update_product js no_faults ''p1'' ?new shop)) =
       Some (''export const products = '' @
         stringify2 0 (JArr [JObj [(''id'', JStr ''p1''), (''title'', JStr ''Starter kit''),
           (''price'', JNum 10), (''downloadableFileName'', JStr ''v2.zip'')]]) @ '';'')"
    using a[THEN conjunct1, THEN mp, OF new(1)] new(2) start records(1)
    by (simp_all add: updated_file_def printer del: stringify2.simps)
  have rb: "blobs (snd (update_product js no_faults ''p1'' ?data shop)) ''p1'' =
       Some \<lparr>fileName = JStr ''kit.zip'', fileData = JStr ''UEsDBD==''\<rparr>"
    using b[THEN conjunct1, THEN mp, OF data(1)] data(2) start
    by (simp add: updated_file_def)
  have rc: "trace (snd (update_product js no_faults ''p1'' ?clear shop)) =
        [ReadFile, BlobDelete ''p1'', WriteFile]"
    "blobs (snd (update_product js no_faults ''p1'' ?clear shop)) ''p1'' = None"
    "constant_tsx (snd (update_product js no_faults ''p1'' ?clear shop)) =
       Some (''export const products = '' @
         stringify2 0 (JArr [JObj [(''id'', JStr ''p1''), (''title'', JStr ''Starter kit''),
           (''price'', JNum 10), (''downloadableFileName'', JNull)]]) @ '';'')"
    using c[THEN conjunct2, THEN conjunct1, THEN mp, OF cleared] start records(2)
    by (simp_all add: printer del: stringify2.simps)
  have rd: "trace (snd (update_product js no_faults ''p1'' ?plain shop)) = [ReadFile, WriteFile]"
    "blobs (snd (update_product js no_faults ''p1'' ?plain shop)) ''p1'' =
        Some \<lparr>fileName = JStr ''kit.zip'', fileData = JStr ''UEsDBA==''\<rparr>"
    "constant_tsx (snd (update_product js no_faults ''p1'' ?plain shop)) =
       Some (''export const products = '' @
         stringify2 0 (JArr [JObj [(''id'', JStr ''p1''), (''title'', JStr ''Pro kit''),
           (''price'', JNum 10), (''downloadableFileName'', JStr ''kit.zip'')]]) @ '';'')"
    using d[THEN conjunct2, THEN conjunct2, THEN mp, OF absent] start records(3)
    by (simp_all add: printer del: stringify2.simps)
  from listing_shop findIndex_shop ra rb rc rd show ?thesis
    by (intro conjI)
qed

text \<open>Against C7 as stated: the body has no payload key and names a file. The stored
  record takes the name, and the blob still has the old one.\<close>

theorem update_file_name_counterexample:
  "''downloadableFile'' \<notin> fst ` set [(''downloadableFileName'', JStr ''evil.zip'')]
   \<and> get_prop kit ''downloadableFileName'' = JStr ''kit.zip''
   \<and> fst (update_product js no_faults ''p1'' [(''downloadableFileName'', JStr ''evil.zip'')] shop) =
       Json 200 (JObj [(''id'', JStr ''p1''), (''title'', JStr ''Starter kit''), (''price'', JNum 10),
                       (''downloadableFileName'', JStr ''evil.zip'')])
   \<and> listing js (snd (update_product js no_faults ''p1''
        [(''downloadableFileName'', JStr ''evil.zip'')] shop)) =
       JArr [JObj [(''id'', JStr ''p1''), (''title'', JStr ''Starter kit''), (''price'', JNum 10),
                   (''downloadableFileName'', JStr ''evil.zip'')]]
   \<and> blobs (snd (update_product js no_faults ''p1''
        [(''downloadableFileName'', JStr ''evil.zip'')] shop)) ''p1'' =
       Some \<lparr>fileName = JStr ''kit.zip'', fileData = JStr ''UEsDBA==''\<rparr>"
  by code_simp

section \<open>Adding a product\<close>

lemma add_product_valid:
  assumes "truthy (field body ''title'')" "truthy (field body ''description'')"
    "truthy (field body ''images'')" "truthy (field body ''price'')"
    "truthy (field body ''category'')"
  shows "add_product bi flt productId body st =
     (case (if has_payload body
            then ProductFile_create (blob_fault flt) productId (payload body) (emit ReadFile st)
            else (Inr (), emit ReadFile st)) of
        (Inl e, st2) \<Rightarrow> (Error500 ''Error adding product'' e, st2)
      | (Inr _, st2) \<Rightarrow>
          (case unshift (newProduct_of bi productId body) (listing bi st) of
             Inl e \<Rightarrow> (Error500 ''Error adding product'' e, st2)
           | Inr products' \<Rightarrow>
               (case writeProducts bi (write_fault flt) products' st2 of
                  (Inl e, st3) \<Rightarrow> (Error500 ''Error adding product'' e, st3)
                | (Inr _, st3) \<Rightarrow> (Json 201 (newProduct_of bi productId body), st3))))"
  using assms
  by (auto simp: add_product_def readProducts_def listing_def Let_def
      split: prod.splits sum.splits)

lemma add_product_invalid:
  "\<not> truthy (field body ''title'') \<or> \<not> truthy (field body ''description'') \<or>
   \<not> truthy (field body ''images'') \<or> \<not> truthy (field body ''price'') \<or>
   \<not> truthy (field body ''category'') \<Longrightarrow>
   add_product bi flt productId body st = (Message 400 ''Missing required product fields'', st)"
  by (simp add: add_product_def)

lemma add_product_valid_response:
  assumes "truthy (field body ''title'')" "truthy (field body ''description'')"
    "truthy (field body ''images'')" "truthy (field body ''price'')"
    "truthy (field body ''category'')"
  shows "fst (add_product bi flt productId body st) \<noteq> Message 400 m"
  unfolding add_product_valid[OF assms]
  by (auto split: prod.splits sum.splits if_splits)

lemma trace_writeProducts:
  "trace (snd (writeProducts bi fault products st)) = trace st @ [WriteFile]"
  by (simp add: writeProducts_def emit_def split: prod.splits)

lemma blobs_writeProducts:
  "blobs (snd (writeProducts bi fault products st)) = blobs st"
  by (simp add: writeProducts_def emit_def split: prod.splits)

text \<open>
  C6. For an Add that passes validation and supplies a payload, the blob store call is
  made after the read and strictly before the write of the artifact. If the blob step
  fails (MongoDB rejects the call, or a document for the id exists), the request fails
  with a 500, the artifact is not written, and neither the artifact nor the blob store
  has changed. If it succeeds, the blob is stored under the new id and the write of the
  artifact, when it is reached, comes after it.
\<close>

theorem add_blob_before_metadata:
  assumes valid: "truthy (field body ''title'')" "truthy (field body ''description'')"
      "truthy (field body ''images'')" "truthy (field body ''price'')"
      "truthy (field body ''category'')"
    and supplied: "has_payload body"
  shows "(blob_fault flt \<or> blobs st productId \<noteq> None \<longrightarrow>
            add_product bi flt productId body st =
              (Error500 ''Error adding product'' MongoError,
               st\<lparr>trace := trace st @ [ReadFile, BlobCreate productId]\<rparr>)
          \<and> constant_tsx (snd (add_product bi flt productId body st)) = constant_tsx st
          \<and> blobs (snd (add_product bi flt productId body st)) = blobs st)
       \<and> (\<not> blob_fault flt \<and> blobs st productId = None \<longrightarrow>
            blobs (snd (add_product bi flt productId body st)) =
              (blobs st)(productId \<mapsto> payload body)
          \<and> trace (snd (add_product bi flt productId body st)) =
              trace st @ [ReadFile, BlobCreate productId]
                @ (if isArray (listing bi st) then [WriteFile] else []))"
proof -
  note run = add_product_valid[OF valid, of bi flt productId st]
  have rejected: "add_product bi flt productId body st =
      (Error500 ''Error adding product'' MongoError,
       st\<lparr>trace := trace st @ [ReadFile, BlobCreate productId]\<rparr>)"
    if "blob_fault flt \<or> blobs st productId \<noteq> None"
    using that supplied unfolding run by (auto simp: ProductFile_create_def emit_def)
  have stored: "blobs (snd (add_product bi flt productId body st)) =
        (blobs st)(productId \<mapsto> payload body)
      \<and> trace (snd (add_product bi flt productId body st)) =
        trace st @ [ReadFile, BlobCreate productId]
          @ (if isArray (listing bi st) then [WriteFile] else [])"
    if "\<not> blob_fault flt" "blobs st productId = None"
  proof (cases "listing bi st")
    case (JArr ps)
    define st2 where "st2 = emit (BlobCreate productId)
      (emit ReadFile st\<lparr>blobs := (blobs (emit ReadFile st))(productId \<mapsto> payload body)\<rparr>)"
    have "snd (add_product bi flt productId body st) =
        snd (writeProducts bi (write_fault flt) (JArr (newProduct_of bi productId body # ps)) st2)"
      using that supplied JArr unfolding run st2_def
      by (auto simp: ProductFile_create_def emit_def split: prod.splits sum.splits)
    then show ?thesis
      using JArr by (simp add: trace_writeProducts blobs_writeProducts st2_def emit_def)
  qed (use that supplied in \<open>auto simp: run ProductFile_create_def emit_def\<close>)
  show ?thesis using rejected stored by auto
qed

text \<open>An Add with a payload on the catalog of the examples, rejected by the blob store
  and accepted.\<close>

theorem add_blob_before_metadata_witness:
  "has_payload kit_request
   \<and> add_product js \<lparr>blob_fault = True, write_fault = NoFault\<rparr> ''p2'' kit_request shop =
       (Error500 ''Error adding product'' MongoError,
        shop\<lparr>trace := [ReadFile, BlobCreate ''p2'']\<rparr>)
   \<and> trace (snd (add_product js no_faults ''p2'' kit_request shop)) =
       [ReadFile, BlobCreate ''p2'', WriteFile]
   \<and> blobs (snd (add_product js no_faults ''p2'' kit_request shop)) ''p2'' =
       Some \<lparr>fileName = JStr ''theme.zip'', fileData = JStr ''UEsDBC==''\<rparr>"
proof -
  have valid: "truthy (field kit_request ''title'')" "truthy (field kit_request ''description'')"
      "truthy (field kit_request ''images'')" "truthy (field kit_request ''price'')"
      "truthy (field kit_request ''category'')"
    by (simp_all add: kit_request_def field_def)
  have supplied: "has_payload kit_request"
    by (simp add: kit_request_def has_payload_def field_def)
  have zip: "payload kit_request = \<lparr>fileName = JStr ''theme.zip'', fileData = JStr ''UEsDBC==''\<rparr>"
    by (simp add: kit_request_def payload_def field_def)
  have start: "trace shop = []" "blobs shop ''p2'' = None"
    by (simp_all add: shop_def)
  from add_blob_before_metadata[OF valid supplied, of "\<lparr>blob_fault = True, write_fault = NoFault\<rparr>" shop "''p2''" js]
    add_blob_before_metadata[OF valid supplied, of no_faults shop "''p2''" js]
    supplied zip start listing_shop
  show ?thesis by (simp add: no_faults_def)
qed

lemma falsy_cases:
  "v \<noteq> JNum 0 \<Longrightarrow> (\<not> truthy v) = (v \<in> {JUndefined, JNull, JBool False, JStr []})"
  by (cases v) auto

text \<open>
  C5, as the code has it. The claim as stated fails: a request with an empty \<^verbatim>\<open>images\<close>
  array and every other field present is accepted, since the check tests the five fields
  for being falsy and an empty array is not. The amended claim: for every Add request in
  which none of the five required fields is the number 0, the request fails with 400
  "Missing required product fields" if and only if one of \<^verbatim>\<open>title\<close>, \<^verbatim>\<open>description\<close>,
  \<^verbatim>\<open>images\<close>, \<^verbatim>\<open>price\<close>, \<^verbatim>\<open>category\<close> is missing, \<^verbatim>\<open>null\<close>, \<^verbatim>\<open>false\<close> or the empty
  string; \<^verbatim>\<open>images\<close> need not be non-empty.
\<close>

theorem add_validation:
  assumes nonzero:
    "\<forall>k\<in>{''title'', ''description'', ''images'', ''price'', ''category''}. field body k \<noteq> JNum 0"
  shows "(fst (add_product bi flt productId body st) = Message 400 ''Missing required product fields'')
       = (\<exists>k\<in>{''title'', ''description'', ''images'', ''price'', ''category''}.
            field body k \<in> {JUndefined, JNull, JBool False, JStr []})"
proof -
  have falsy: "(\<not> truthy (field body k)) = (field body k \<in> {JUndefined, JNull, JBool False, JStr []})"
    if "k \<in> {''title'', ''description'', ''images'', ''price'', ''category''}" for k
  proof -
    from nonzero that have "field body k \<noteq> JNum 0" by (rule bspec)
    then show ?thesis by (rule falsy_cases)
  qed
  show ?thesis
  proof (cases "truthy (field body ''title'') \<and> truthy (field body ''description'') \<and>
      truthy (field body ''images'') \<and> truthy (field body ''price'') \<and>
      truthy (field body ''category'')")
    case True
    then have "fst (add_product bi flt productId body st) \<noteq>
        Message 400 ''Missing required product fields''"
      by (intro add_product_valid_response) simp_all
    moreover from True have "\<not> (\<exists>k\<in>{''title'', ''description'', ''images'', ''price'', ''category''}.
        field body k \<in> {JUndefined, JNull, JBool False, JStr []})"
      using falsy[of "''title''"] falsy[of "''description''"] falsy[of "''images''"]
        falsy[of "''price''"] falsy[of "''category''"]
      by simp
    ultimately show ?thesis by simp
  next
    case False
    then have "fst (add_product bi flt productId body st) =
        Message 400 ''Missing required product fields''"
      using add_product_invalid[of body bi flt productId st] by auto
    moreover from False have "\<exists>k\<in>{''title'', ''description'', ''images'', ''price'', ''category''}.
        field body k \<in> {JUndefined, JNull, JBool False, JStr []}"
      using falsy[of "''title''"] falsy[of "''description''"] falsy[of "''images''"]
        falsy[of "''price''"] falsy[of "''category''"]
      by auto
    ultimately show ?thesis by simp
  qed
qed

text \<open>A request without a title is rejected; a complete one is not.\<close>

theorem add_validation_witness:
  "fst (add_product js no_faults ''p2''
        [(''description'', JStr ''A theme''), (''images'', JArr [JStr ''t.png'']),
         (''price'', JNum 5), (''category'', JStr ''web'')] shop) =
     Message 400 ''Missing required product fields''
   \<and> fst (add_product js no_faults ''p2''
        [(''title'', JStr ''Theme''), (''description'', JStr ''A theme''),
         (''images'', JArr [JStr ''t.png'']), (''price'', JNum (-5)), (''category'', JStr ''web'')]
        shop) \<noteq> Message 400 ''Missing required product fields''"
proof -
  let ?missing = "[(''description'', JStr ''A theme''), (''images'', JArr [JStr ''t.png'']),
         (''price'', JNum 5), (''category'', JStr ''web'')]"
  let ?full = "[(''title'', JStr ''Theme''), (''description'', JStr ''A theme''),
         (''images'', JArr [JStr ''t.png'']), (''price'', JNum (-5)), (''category'', JStr ''web'')]"
  have nz1: "\<forall>k\<in>{''title'', ''description'', ''images'', ''price'', ''category''}.
      field ?missing k \<noteq> JNum 0"
    by (simp add: field_def)
  have nz2: "\<forall>k\<in>{''title'', ''description'', ''images'', ''price'', ''category''}.
      field ?full k \<noteq> JNum 0"
    by (simp add: field_def)
  from add_validation[OF nz1, of js no_faults "''p2''" shop]
    add_validation[OF nz2, of js no_faults "''p2''" shop]
  show ?thesis by (simp add: field_def)
qed

text \<open>Against C5 as stated: \<^verbatim>\<open>images\<close> is empty and the product is created.\<close>

theorem add_empty_images_counterexample:
  "field [(''title'', JStr ''Theme''), (''description'', JStr ''A theme''), (''images'', JArr []),
          (''price'', JNum 5), (''category'', JStr ''web'')] ''images'' = JArr []
   \<and> fst (add_product js no_faults ''p2''
        [(''title'', JStr ''Theme''), (''description'', JStr ''A theme''), (''images'', JArr []),
         (''price'', JNum 5), (''category'', JStr ''web'')] shop) =
       Json 201 (JObj [(''id'', JStr ''p2''), (''title'', JStr ''Theme''),
                       (''description'', JStr ''A theme''), (''features'', JArr []),
                       (''images'', JArr []), (''price'', JNum 5), (''category'', JStr ''web''),
                       (''type'', JStr ''dashboard''), (''downloadableFileName'', JNull)])"
  by code_simp

section \<open>A write that fails\<close>

text \<open>
  C2, as the code has it. The claim as stated fails: \<^verbatim>\<open>writeProductsToConstant\<close> writes
  in place with \<^verbatim>\<open>fs.writeFile\<close> on the artifact itself, with no temporary file and no
  rename. The amended claim: a write that fails rethrows the error; the previous content
  is intact only when the storage rejects the call before the file is opened; when it
  rejects it during the write, the artifact is left holding the part of the new content
  written so far.
\<close>

theorem failed_write_leaves:
  assumes failed: "fst (writeProductsToConstant stringify fault products file) = Inl e"
  shows "e = FsError
       \<and> (fault = OpenFails \<and> snd (writeProductsToConstant stringify fault products file) = file
          \<or> (\<exists>n. fault = WriteFails n
                \<and> snd (writeProductsToConstant stringify fault products file) =
                    Some (take n (''export const products = '' @ stringify products @ '';''))))"
  using failed
  by (cases fault) (auto simp: writeProductsToConstant_def fs_writeFile_def)

text \<open>A call rejected before the file is opened.\<close>

theorem failed_write_leaves_witness:
  "fst (writeProductsToConstant (stringify2 0) OpenFails (JArr [])
     (Some ''export const products = [];'')) = Inl FsError
   \<and> snd (writeProductsToConstant (stringify2 0) OpenFails (JArr [])
     (Some ''export const products = [];'')) = Some ''export const products = [];''
   \<and> fst (writeProductsToConstant (stringify2 0) (WriteFails 6) (JArr [])
     (Some ''export const products = [];'')) = Inl FsError
   \<and> snd (writeProductsToConstant (stringify2 0) (WriteFails 6) (JArr [])
     (Some ''export const products = [];'')) = Some ''export''"
proof -
  have early: "fst (writeProductsToConstant (stringify2 0) OpenFails (JArr [])
     (Some ''export const products = [];'')) = Inl FsError"
    by (simp add: writeProductsToConstant_def fs_writeFile_def)
  have late: "fst (writeProductsToConstant (stringify2 0) (WriteFails 6) (JArr [])
     (Some ''export const products = [];'')) = Inl FsError"
    by (simp add: writeProductsToConstant_def fs_writeFile_def)
  from failed_write_leaves[OF early] failed_write_leaves[OF late] early late
  show ?thesis by simp
qed

text \<open>Against C2 as stated: a write rejected after the file was truncated leaves an
  empty artifact, and one rejected after ten characters leaves those ten.\<close>

theorem failed_write_counterexample:
  "writeProductsToConstant (stringify2 0) (WriteFails 0) (JArr [])
     (Some ''export const products = [];'') = (Inl FsError, Some [])
   \<and> writeProductsToConstant (stringify2 0) (WriteFails 10) (JArr [])
     (Some ''export const products = [];'') = (Inl FsError, Some ''export con'')"
  by (simp add: writeProductsToConstant_def fs_writeFile_def)

section \<open>Reading the artifact\<close>

lemma comma_not_space [simp]: "\<not> is_space CHR '',''"
  by (simp add: is_space_def)

lemma close_not_space [simp]: "\<not> is_space CHR '']''" "\<not> is_space CHR ''}''"
  by (simp_all add: is_space_def)

lemma dropWhile_space_append:
  "\<not> is_space y \<Longrightarrow> dropWhile is_space (xs @ y # r) = dropWhile is_space xs @ y # r"
  by (induction xs) auto

lemma replace_spaces:
  "\<forall>x\<in>set ws. is_space x \<Longrightarrow> replace_comma_before c (ws @ r) = ws @ replace_comma_before c r"
  by (induction ws) auto

lemma replace_match:
  assumes "\<forall>x\<in>set ws. is_space x" and "\<not> is_space c"
  shows "replace_comma_before c (CHR '','' # ws @ c # r) = c # replace_comma_before c r"
proof -
  have "dropWhile is_space (ws @ c # r) = c # r"
    using assms by (induction ws) auto
  then show ?thesis by simp
qed

lemma replace_no_match:
  assumes "\<forall>x\<in>set ws. is_space x" and "\<not> is_space y" and "y \<noteq> c"
  shows "replace_comma_before c (CHR '','' # ws @ y # r) =
           CHR '','' # ws @ replace_comma_before c (y # r)"
proof -
  have "dropWhile is_space (ws @ y # r) = y # r"
    using assms by (induction ws) auto
  then show ?thesis using assms by (simp add: replace_spaces)
qed

lemma replace_append_other:
  "\<not> is_space y \<Longrightarrow> y \<noteq> c \<Longrightarrow>
   replace_comma_before c (xs @ y # r) = replace_comma_before c xs @ replace_comma_before c (y # r)"
proof (induction c xs rule: replace_comma_before.induct)
  case (1 c)
  then show ?case by simp
next
  case (2 c x xs)
  show ?case
  proof (cases "x = CHR '',''")
    case False
    with 2 show ?thesis by simp
  next
    case True
    show ?thesis
    proof (cases "dropWhile is_space xs")
      case Nil
      with "2.prems"(1) have "dropWhile is_space (xs @ y # r) = y # r" by simp
      with 2 True Nil show ?thesis by (simp del: dropWhile_eq_Nil_conv)
    next
      case (Cons z zs)
      then have "dropWhile is_space (xs @ y # r) = z # zs @ y # r"
        by (metis append_Cons dropWhile_append1 dropWhile_eq_Nil_conv list.distinct(1))
      with 2 True Cons show ?thesis by simp
    qed
  qed
qed

lemma ends_with_comma_Cons:
  "ends_with_comma (x # xs) =
     (if \<forall>y\<in>set xs. is_space y then x = CHR '','' else ends_with_comma xs)"
  by (auto simp: ends_with_comma_def dropWhile_append split: list.splits)

lemma ends_with_comma_spaces: "\<forall>y\<in>set xs. is_space y \<Longrightarrow> \<not> ends_with_comma xs"
proof -
  assume "\<forall>y\<in>set xs. is_space y"
  then have "dropWhile is_space (rev xs) = []" by simp
  then show ?thesis by (simp add: ends_with_comma_def del: dropWhile_eq_Nil_conv)
qed

lemma ends_with_comma_append:
  "ends_with_comma (a @ b) = (if \<forall>y\<in>set b. is_space y then ends_with_comma a else ends_with_comma b)"
  by (induction a) (auto simp: ends_with_comma_Cons ends_with_comma_spaces)

lemma replace_append_close:
  "\<not> ends_with_comma xs \<Longrightarrow> \<not> is_space c \<Longrightarrow> c \<noteq> CHR '','' \<Longrightarrow>
   replace_comma_before c (xs @ c # r) = replace_comma_before c xs @ c # replace_comma_before c r"
proof (induction c xs rule: replace_comma_before.induct)
  case (1 c)
  then show ?case by simp
next
  case (2 c x xs)
  show ?case
  proof (cases "x = CHR '',''")
    case False
    with "2.prems" have "\<not> ends_with_comma xs"
      by (auto simp: ends_with_comma_Cons ends_with_comma_spaces split: if_splits)
    with 2 False show ?thesis by simp
  next
    case True
    with "2.prems" have some: "\<not> (\<forall>y\<in>set xs. is_space y)" and rest: "\<not> ends_with_comma xs"
      by (auto simp: ends_with_comma_Cons split: if_splits)
    from some obtain z zs where Cons: "dropWhile is_space xs = z # zs"
      by (cases "dropWhile is_space xs") auto
    then have long: "dropWhile is_space (xs @ c # r) = z # zs @ c # r"
      by (metis append_Cons dropWhile_append1 dropWhile_eq_Nil_conv list.distinct(1))
    show ?thesis
    proof (cases "z = c")
      case False
      with 2 True Cons long rest show ?thesis by simp
    next
      case same: True
      have "xs = takeWhile is_space xs @ c # zs"
        using Cons same by (metis takeWhile_dropWhile_id)
      then have "ends_with_comma xs = ends_with_comma (takeWhile is_space xs @ c # zs)"
        by simp
      also have "\<dots> = ends_with_comma (c # zs)"
        using "2.prems"(2) by (simp add: ends_with_comma_append)
      finally have "\<not> ends_with_comma zs"
        using rest "2.prems"(3) ends_with_comma_spaces[of zs]
        by (auto simp: ends_with_comma_Cons split: if_splits)
      with 2 True Cons long same show ?thesis by simp
    qed
  qed
qed

lemma replace_head:
  "replace_comma_before c (CHR '','' # xs) \<noteq> [] \<and>
   (hd (replace_comma_before c (CHR '','' # xs)) = CHR '','' \<or>
    hd (replace_comma_before c (CHR '','' # xs)) = c)"
  by (cases "dropWhile is_space xs") (simp_all del: dropWhile_eq_Nil_conv)

lemma replace_all_spaces:
  "\<not> is_space c \<Longrightarrow> \<forall>y\<in>set (replace_comma_before c xs). is_space y \<Longrightarrow> \<forall>y\<in>set xs. is_space y"
proof (induction c xs rule: replace_comma_before.induct)
  case (1 c)
  then show ?case by simp
next
  case (2 c x xs)
  show ?case
  proof (cases "x = CHR '',''")
    case False
    then have eq: "replace_comma_before c (x # xs) = x # replace_comma_before c xs" by simp
    from "2.prems"(2) have "is_space x" and r: "\<forall>y\<in>set (replace_comma_before c xs). is_space y"
      unfolding eq by simp_all
    moreover from "2.IH"(4)[OF False "2.prems"(1) r] have "\<forall>y\<in>set xs. is_space y" .
    ultimately show ?thesis by simp
  next
    case True
    from replace_head[of c xs] have "hd (replace_comma_before c (x # xs)) \<in> set (replace_comma_before c (x # xs))"
      unfolding True by (metis hd_in_set)
    with "2.prems"(2) have "is_space (hd (replace_comma_before c (x # xs)))" by blast
    with replace_head[of c xs] "2.prems"(1) show ?thesis
      unfolding True by auto
  qed
qed

lemma ends_with_comma_replace:
  "\<not> is_space c \<Longrightarrow> c \<noteq> CHR '','' \<Longrightarrow> ends_with_comma (replace_comma_before c xs) \<Longrightarrow>
   ends_with_comma xs"
proof (induction c xs rule: replace_comma_before.induct)
  case (1 c)
  then show ?case by simp
next
  case (2 c x xs)
  have copied: "ends_with_comma (x # xs)" if "ends_with_comma (x # replace_comma_before c xs)"
    and ih: "ends_with_comma (replace_comma_before c xs) \<Longrightarrow> ends_with_comma xs"
  proof (cases "\<forall>y\<in>set (replace_comma_before c xs). is_space y")
    case True
    with that(1) have "x = CHR '',''" by (simp add: ends_with_comma_Cons)
    moreover from True "2.prems"(1) have "\<forall>y\<in>set xs. is_space y" by (rule replace_all_spaces[rotated])
    ultimately show ?thesis by (simp add: ends_with_comma_Cons)
  next
    case False
    with that(1) have "ends_with_comma (replace_comma_before c xs)"
      by (simp add: ends_with_comma_Cons)
    then have e: "ends_with_comma xs" by (rule ih)
    then have "\<not> (\<forall>y\<in>set xs. is_space y)" using ends_with_comma_spaces by blast
    with e show ?thesis by (auto simp: ends_with_comma_Cons)
  qed
  show ?case
  proof (cases "x = CHR '',''")
    case False
    with 2 copied show ?thesis by simp
  next
    case True
    show ?thesis
    proof (cases "dropWhile is_space xs")
      case Nil
      with 2 True copied show ?thesis by (simp del: dropWhile_eq_Nil_conv)
    next
      case (Cons z zs)
      show ?thesis
      proof (cases "z = c")
        case False
        with 2 True Cons copied show ?thesis by simp
      next
        case same: True
        from "2.prems"(3) True Cons same
        have "ends_with_comma (c # replace_comma_before c zs)" by simp
        then have "ends_with_comma (replace_comma_before c zs)"
          using "2.prems"(2) by (auto simp: ends_with_comma_Cons split: if_splits)
        with 2 True Cons same have e: "ends_with_comma zs" by simp
        then have nsp: "\<not> (\<forall>y\<in>set zs. is_space y)" using ends_with_comma_spaces by blast
        have "xs = takeWhile is_space xs @ c # zs"
          using Cons same by (metis takeWhile_dropWhile_id)
        then have "ends_with_comma xs = ends_with_comma (takeWhile is_space xs @ c # zs)"
          by simp
        also have "\<dots> = ends_with_comma zs"
          using "2.prems"(1) nsp by (auto simp: ends_with_comma_append ends_with_comma_Cons)
        finally have "ends_with_comma xs" using e by simp
        moreover have "\<not> (\<forall>y\<in>set xs. is_space y)"
          using Cons by (metis dropWhile_eq_Nil_conv list.distinct(1))
        ultimately show ?thesis by (auto simp: ends_with_comma_Cons)
      qed
    qed
  qed
qed

text \<open>One trailing comma before a closing delimiter is invisible after the cleaning.\<close>

lemma cleanedJson_trailing_comma:
  assumes c: "c = CHR '']'' \<or> c = CHR ''}''"
    and ws: "\<forall>x\<in>set ws. is_space x"
    and one: "\<not> ends_with_comma xs"
  shows "cleanedJson (xs @ CHR '','' # ws @ c # ys) = cleanedJson (xs @ c # ys)"
proof -
  let ?B = "replace_comma_before CHR '']''" and ?C = "replace_comma_before CHR ''}''"
  from c show ?thesis
  proof
    assume c: "c = CHR '']''"
    have "?B (xs @ CHR '','' # ws @ c # ys) = ?B xs @ ?B (CHR '','' # ws @ c # ys)"
      by (rule replace_append_other) simp_all
    also have "\<dots> = ?B xs @ c # ?B ys"
      using ws by (simp only: c replace_match[OF ws close_not_space(1)])
    also have "\<dots> = ?B (xs @ c # ys)"
      unfolding c by (rule replace_append_close[symmetric, OF one]) simp_all
    finally show ?thesis by (simp only: cleanedJson_def)
  next
    assume c: "c = CHR ''}''"
    have one': "\<not> ends_with_comma (?B xs)"
      using one ends_with_comma_replace[of "CHR '']''" xs] by auto
    have "?B (xs @ CHR '','' # ws @ c # ys) = ?B xs @ ?B (CHR '','' # ws @ c # ys)"
      by (rule replace_append_other) simp_all
    also have "?B (CHR '','' # ws @ c # ys) = CHR '','' # ws @ ?B (c # ys)"
      unfolding c by (rule replace_no_match[OF ws]) simp_all
    also have "?B (c # ys) = c # ?B ys"
      unfolding c by simp
    finally have left: "?B (xs @ CHR '','' # ws @ c # ys) = ?B xs @ CHR '','' # ws @ c # ?B ys" .
    have "?B (xs @ c # ys) = ?B xs @ ?B (c # ys)"
      unfolding c by (rule replace_append_other) simp_all
    also have "?B (c # ys) = c # ?B ys"
      unfolding c by simp
    finally have right: "?B (xs @ c # ys) = ?B xs @ c # ?B ys" .
    have "?C (?B xs @ CHR '','' # ws @ c # ?B ys) = ?C (?B xs) @ ?C (CHR '','' # ws @ c # ?B ys)"
      by (rule replace_append_other) simp_all
    also have "\<dots> = ?C (?B xs) @ c # ?C (?B ys)"
      by (simp only: c replace_match[OF ws close_not_space(2)])
    also have "\<dots> = ?C (?B xs @ c # ?B ys)"
      unfolding c by (rule replace_append_close[symmetric, OF one']) simp_all
    finally show ?thesis by (simp only: cleanedJson_def left right)
  qed
qed

text \<open>Of two commas before a closing delimiter, one is left for the parser.\<close>

lemma cleanedJson_two_commas:
  assumes c: "c = CHR '']'' \<or> c = CHR ''}''"
    and ws: "\<forall>x\<in>set ws. is_space x"
  shows "cleanedJson (xs @ CHR '','' # CHR '','' # ws @ c # ys) =
           cleanedJson xs @ CHR '','' # c # cleanedJson ys"
proof -
  let ?B = "replace_comma_before CHR '']''" and ?C = "replace_comma_before CHR ''}''"
  have first: "replace_comma_before d (CHR '','' # CHR '','' # r) =
      CHR '','' # replace_comma_before d (CHR '','' # r)" if "d \<noteq> CHR '',''" for d r
    using that replace_no_match[of "[]" "CHR '',''" d r] by simp
  from c show ?thesis
  proof
    assume c: "c = CHR '']''"
    have "?B (xs @ CHR '','' # CHR '','' # ws @ c # ys) = ?B xs @ ?B (CHR '','' # CHR '','' # ws @ c # ys)"
      by (rule replace_append_other) simp_all
    also have "?B (CHR '','' # CHR '','' # ws @ c # ys) = CHR '','' # ?B (CHR '','' # ws @ c # ys)"
      by (rule first) simp
    also have "?B (CHR '','' # ws @ c # ys) = c # ?B ys"
      by (simp only: c replace_match[OF ws close_not_space(1)])
    finally have pass1: "?B (xs @ CHR '','' # CHR '','' # ws @ c # ys) = ?B xs @ CHR '','' # c # ?B ys" .
    have "?C (?B xs @ CHR '','' # c # ?B ys) = ?C (?B xs) @ ?C (CHR '','' # c # ?B ys)"
      by (rule replace_append_other) simp_all
    also have "?C (CHR '','' # c # ?B ys) = CHR '','' # ?C (c # ?B ys)"
      unfolding c using replace_no_match[of "[]" "CHR '']''" "CHR ''}''" "?B ys"] by simp
    also have "?C (c # ?B ys) = c # ?C (?B ys)"
      unfolding c by simp
    finally show ?thesis by (simp only: cleanedJson_def pass1)
  next
    assume c: "c = CHR ''}''"
    have "?B (xs @ CHR '','' # CHR '','' # ws @ c # ys) = ?B xs @ ?B (CHR '','' # CHR '','' # ws @ c # ys)"
      by (rule replace_append_other) simp_all
    also have "?B (CHR '','' # CHR '','' # ws @ c # ys) = CHR '','' # ?B (CHR '','' # ws @ c # ys)"
      by (rule first) simp
    also have "?B (CHR '','' # ws @ c # ys) = CHR '','' # ws @ ?B (c # ys)"
      unfolding c by (rule replace_no_match[OF ws]) simp_all
    also have "?B (c # ys) = c # ?B ys"
      unfolding c by simp
    finally have pass1: "?B (xs @ CHR '','' # CHR '','' # ws @ c # ys) =
        ?B xs @ CHR '','' # CHR '','' # ws @ c # ?B ys" .
    have "?C (?B xs @ CHR '','' # CHR '','' # ws @ c # ?B ys) =
        ?C (?B xs) @ ?C (CHR '','' # CHR '','' # ws @ c # ?B ys)"
      by (rule replace_append_other) simp_all
    also have "?C (CHR '','' # CHR '','' # ws @ c # ?B ys) = CHR '','' # ?C (CHR '','' # ws @ c # ?B ys)"
      by (rule first) simp
    also have "?C (CHR '','' # ws @ c # ?B ys) = c # ?C (?B ys)"
      by (simp only: c replace_match[OF ws close_not_space(2)])
    finally show ?thesis by (simp only: cleanedJson_def pass1)
  qed
qed

lemma indexOf_prefix: "prefix m s \<Longrightarrow> indexOf s m = Some 0"
  by (cases s) auto

lemma prefix_append_long: "length m \<le> length A \<Longrightarrow> prefix m (A @ rest) = prefix m A"
proof
  assume "prefix m (A @ rest)"
  then have "m = take (length m) (A @ rest)" by (metis append_eq_conv_conj prefix_def)
  moreover assume "length m \<le> length A"
  ultimately have "m = take (length m) A" by simp
  then show "prefix m A" by (metis take_is_prefix)
next
  assume "prefix m A"
  then show "prefix m (A @ rest)" by (rule prefix_prefix)
qed

lemma indexOf_marker:
  "indexOf (pre @ m) m = Some (length pre) \<Longrightarrow> indexOf (pre @ m @ rest) m = Some (length pre)"
proof (induction pre)
  case Nil
  then show ?case by (simp add: indexOf_prefix)
next
  case (Cons x pre)
  from Cons.prems have no: "\<not> prefix m (x # pre @ m)" and at: "indexOf (pre @ m) m = Some (length pre)"
    by (auto split: if_splits)
  have "length m \<le> length (x # pre @ m)" by simp
  then have "prefix m ((x # pre @ m) @ rest) = prefix m (x # pre @ m)"
    by (rule prefix_append_long)
  with no have "\<not> prefix m (x # pre @ m @ rest)" by simp
  with Cons.IH[OF at] show ?case by simp
qed

lemma read_unfold:
  "readProductsFromConstant parse (Some data) =
     (case indexOf data startMarker of
        None \<Rightarrow> JArr []
      | Some i \<Rightarrow>
          (case parse (cleanedJson (strip_semicolon (trim (drop (i + length startMarker) data)))) of
             None \<Rightarrow> JArr []
           | Some v \<Rightarrow> v))"
  by (simp add: readProductsFromConstant_def strip_semicolon_def Let_def split: option.splits)

lemma trim_rtrim: "trim s = rtrim (dropWhile is_space s)"
  by (simp add: trim_def rtrim_def)

lemma rtrim_close: "\<not> is_space b \<Longrightarrow> rtrim (A @ b # ys) = A @ b # rtrim ys"
  by (simp add: rtrim_def dropWhile_space_append)

lemma trim_close:
  assumes "\<not> is_space b"
  shows "trim (xs @ b # ys) = dropWhile is_space xs @ b # rtrim ys"
  by (simp only: trim_rtrim dropWhile_space_append[OF assms] rtrim_close[OF assms])

lemma trim_body:
  assumes "\<not> is_space a" and "\<not> is_space b"
  shows "trim (xs @ a # mid @ b # ys) = dropWhile is_space xs @ a # mid @ b # rtrim ys"
proof -
  have "trim (xs @ a # mid @ b # ys) = rtrim ((dropWhile is_space xs @ a # mid) @ b # ys)"
    by (simp add: trim_rtrim dropWhile_space_append[OF assms(1)])
  also have "\<dots> = (dropWhile is_space xs @ a # mid) @ b # rtrim ys"
    by (rule rtrim_close[OF assms(2)])
  finally show ?thesis by simp
qed

lemma endsWith_semicolon: "endsWith s '';'' = (s \<noteq> [] \<and> last s = CHR '';'')"
  by (cases s rule: rev_cases) (auto simp: endsWith_def)

lemma strip_semicolon_close:
  "c \<noteq> CHR '';'' \<Longrightarrow> strip_semicolon (A @ c # B) = A @ c # strip_semicolon B"
  by (cases "B = []") (simp_all add: strip_semicolon_def endsWith_semicolon butlast_append)

lemma ends_with_comma_dropWhile: "ends_with_comma (dropWhile is_space xs) = ends_with_comma xs"
proof (cases "\<forall>y\<in>set xs. is_space y")
  case True
  then have "dropWhile is_space xs = []" by simp
  with True show ?thesis
    by (simp add: ends_with_comma_spaces del: dropWhile_eq_Nil_conv)
next
  case False
  then have "\<not> (\<forall>y\<in>set (dropWhile is_space xs). is_space y)"
    by (metis dropWhile_eq_Nil_conv dropWhile_idem)
  then have "ends_with_comma (takeWhile is_space xs @ dropWhile is_space xs) =
      ends_with_comma (dropWhile is_space xs)"
    by (simp only: ends_with_comma_append if_False)
  then show ?thesis by simp
qed

lemma read_trailing_comma:
  assumes marker: "indexOf (pre @ startMarker) startMarker = Some (length pre)"
    and c: "c = CHR '']'' \<or> c = CHR ''}''"
    and ws: "\<forall>x\<in>set ws. is_space x"
    and one: "\<not> ends_with_comma xs"
  shows "readProductsFromConstant parse (Some (pre @ startMarker @ xs @ CHR '','' # ws @ c # ys)) =
         readProductsFromConstant parse (Some (pre @ startMarker @ xs @ c # ys))"
proof -
  from c have nsp: "\<not> is_space c" and nsemi: "c \<noteq> CHR '';''" by auto
  have one': "\<not> ends_with_comma (dropWhile is_space xs)"
    using one by (simp add: ends_with_comma_dropWhile)
  have drop: "drop (length pre + length startMarker) (pre @ startMarker @ r) = r" for r
    by simp
  have "strip_semicolon (trim (xs @ CHR '','' # ws @ c # ys)) =
      strip_semicolon ((dropWhile is_space xs @ CHR '','' # ws) @ c # rtrim ys)"
    by (simp add: trim_body[OF comma_not_space nsp])
  also have "\<dots> = (dropWhile is_space xs @ CHR '','' # ws) @ c # strip_semicolon (rtrim ys)"
    by (rule strip_semicolon_close[OF nsemi])
  finally have with_comma: "cleanedJson (strip_semicolon (trim (xs @ CHR '','' # ws @ c # ys))) =
      cleanedJson (dropWhile is_space xs @ CHR '','' # ws @ c # strip_semicolon (rtrim ys))"
    by simp
  have without: "cleanedJson (strip_semicolon (trim (xs @ c # ys))) =
      cleanedJson (dropWhile is_space xs @ c # strip_semicolon (rtrim ys))"
    by (simp only: trim_close[OF nsp] strip_semicolon_close[OF nsemi])
  have same: "cleanedJson (strip_semicolon (trim (xs @ CHR '','' # ws @ c # ys))) =
      cleanedJson (strip_semicolon (trim (xs @ c # ys)))"
    unfolding with_comma without by (rule cleanedJson_trailing_comma[OF c ws one'])
  show ?thesis
    unfolding read_unfold indexOf_marker[OF marker] option.case drop same ..
qed

text \<open>
  C4. Reading never fails: a missing artifact, an empty one, and one without the
  collection's marker read as the empty sequence, and so does every content that
  \<^verbatim>\<open>JSON.parse\<close> rejects after the cleaning. The cleaning tolerates exactly one trailing
  comma before a closing \<^verbatim>\<open>]\<close> or \<^verbatim>\<open>}\<close> (white space may stand between them): the
  artifact with the comma reads as the artifact without it. Of two commas, one is left
  in the text the parser is given.
\<close>

theorem read_tolerates_trailing_comma:
  "readProductsFromConstant parse None = JArr []
   \<and> readProductsFromConstant parse (Some []) = JArr []
   \<and> (indexOf data startMarker = None \<longrightarrow> readProductsFromConstant parse (Some data) = JArr [])
   \<and> (indexOf data startMarker = Some i
        \<and> parse (cleanedJson (strip_semicolon (trim (drop (i + length startMarker) data)))) = None
      \<longrightarrow> readProductsFromConstant parse (Some data) = JArr [])
   \<and> (indexOf (pre @ startMarker) startMarker = Some (length pre)
        \<and> (c = CHR '']'' \<or> c = CHR ''}'') \<and> (\<forall>x\<in>set ws. is_space x) \<and> \<not> ends_with_comma xs
      \<longrightarrow> readProductsFromConstant parse (Some (pre @ startMarker @ xs @ CHR '','' # ws @ c # ys)) =
          readProductsFromConstant parse (Some (pre @ startMarker @ xs @ c # ys)))
   \<and> ((c = CHR '']'' \<or> c = CHR ''}'') \<and> (\<forall>x\<in>set ws. is_space x)
      \<longrightarrow> cleanedJson (xs @ CHR '','' # CHR '','' # ws @ c # ys) =
          cleanedJson xs @ CHR '','' # c # cleanedJson ys)"
proof -
  have missing: "readProductsFromConstant parse None = JArr []"
    by (simp add: readProductsFromConstant_def)
  have empty: "readProductsFromConstant parse (Some []) = JArr []"
    by (simp add: readProductsFromConstant_def startMarker_def)
  have unmarked: "readProductsFromConstant parse (Some data) = JArr []"
    if "indexOf data startMarker = None"
    using that by (simp add: read_unfold)
  have rejected: "readProductsFromConstant parse (Some data) = JArr []"
    if "indexOf data startMarker = Some i"
      "parse (cleanedJson (strip_semicolon (trim (drop (i + length startMarker) data)))) = None"
    using that by (simp add: read_unfold)
  show ?thesis
    using missing empty unmarked rejected read_trailing_comma[of pre c ws xs parse ys]
      cleanedJson_two_commas[of c ws xs ys]
    by blast
qed

text \<open>An artifact with one trailing comma reads as its two elements; with two commas the
  parser is given \<^verbatim>\<open>[1, 2,]\<close>, rejects it, and the artifact reads as empty.\<close>

theorem read_tolerates_trailing_comma_witness:
  "readProductsFromConstant json_parse
      (Some (''// catalog '' @ startMarker @ ''[1, 2'' @ CHR '','' # '' '' @ CHR '']'' # '';'')) =
     JArr [JNum 1, JNum 2]
   \<and> cleanedJson (''[1, 2'' @ CHR '','' # CHR '','' # '' '' @ CHR '']'' # []) = ''[1, 2,]''
   \<and> json_parse ''[1, 2,]'' = None
   \<and> readProductsFromConstant json_parse (Some (startMarker @ ''[1, 2,, ];'')) = JArr []
   \<and> readProductsFromConstant json_parse (Some ''export const items = [1, 2];'') = JArr []"
proof -
  have marker: "indexOf (''// catalog '' @ startMarker) startMarker = Some (length ''// catalog '')"
    by code_simp
  have one: "\<not> ends_with_comma ''[1, 2''"
    by code_simp
  have plain: "readProductsFromConstant json_parse
      (Some (''// catalog '' @ startMarker @ ''[1, 2'' @ CHR '']'' # '';'')) = JArr [JNum 1, JNum 2]"
    by code_simp
  have clean: "cleanedJson ''[1, 2'' = ''[1, 2''" "cleanedJson [] = []"
    by code_simp+
  have found: "indexOf (startMarker @ ''[1, 2,, ];'') startMarker = Some 0"
    by code_simp
  have rejected: "json_parse (cleanedJson (strip_semicolon (trim
      (drop (0 + length startMarker) (startMarker @ ''[1, 2,, ];''))))) = None"
    by code_simp
  have no: "json_parse ''[1, 2,]'' = None"
    by code_simp
  have unmarked: "indexOf ''export const items = [1, 2];'' startMarker = None"
    by code_simp
  note inst = read_tolerates_trailing_comma[of json_parse _ _ "''// catalog ''" "CHR '']''" "'' ''"
      "''[1, 2''" _]
  from inst[of "startMarker @ ''[1, 2,, ];''" 0 "'';''"] marker one plain
  have first: "readProductsFromConstant json_parse
      (Some (''// catalog '' @ startMarker @ ''[1, 2'' @ CHR '','' # '' '' @ CHR '']'' # '';'')) =
     JArr [JNum 1, JNum 2]"
    by (simp add: is_space_def)
  from inst[of "startMarker @ ''[1, 2,, ];''" 0 "[]"] clean
  have second: "cleanedJson (''[1, 2'' @ CHR '','' # CHR '','' # '' '' @ CHR '']'' # []) = ''[1, 2,]''"
    by (simp add: is_space_def)
  from inst[of "startMarker @ ''[1, 2,, ];''" 0 "[]"] found rejected
  have third: "readProductsFromConstant json_parse (Some (startMarker @ ''[1, 2,, ];'')) = JArr []"
    by simp
  from inst[of "''export const items = [1, 2];''" 0 "[]"] unmarked
  have fourth: "readProductsFromConstant json_parse (Some ''export const items = [1, 2];'') = JArr []"
    by simp
  from first second no third fourth show ?thesis by simp
qed

section \<open>Two Adds at the same time\<close>

lemma add_step_Responded: "add_step bi r (Responded res) st = (Responded res, st)"
  by (simp add: add_step_def)

lemma add_product_steps:
  "(case add_step bi r Arrived st of
      (t1, s1) \<Rightarrow> (case add_step bi r t1 s1 of (t2, s2) \<Rightarrow> add_step bi r t2 s2)) =
   (Responded (fst (add_product bi (req_faults r) (req_uuid r) (req_body r) st)),
    snd (add_product bi (req_faults r) (req_uuid r) (req_body r) st))"
  by (auto simp: add_step_def add_product_def Let_def split: prod.splits sum.splits)

lemma interleave_append:
  "interleave bi a b (s1 @ s2) c = interleave bi a b s2 (interleave bi a b s1 c)"
proof (induction s1 arbitrary: c)
  case Nil
  then show ?case by simp
next
  case (Cons x s1)
  obtain ta tb st where c: "c = (ta, tb, st)" by (cases c)
  show ?case by (cases x) (simp_all add: c Cons.IH split: prod.splits)
qed

lemma interleave_first_done:
  "interleave bi a b (replicate m True) (Responded res, tb, st) = (Responded res, tb, st)"
  by (induction m) (simp_all add: add_step_Responded)

lemma interleave_second_done:
  "interleave bi a b (replicate n False) (ta, Responded res, st) = (ta, Responded res, st)"
  by (induction n) (simp_all add: add_step_Responded)

lemma interleave_first:
  assumes "3 \<le> m"
  shows "interleave bi a b (replicate m True) (Arrived, tb, st) =
     (Responded (fst (add_product bi (req_faults a) (req_uuid a) (req_body a) st)), tb,
      snd (add_product bi (req_faults a) (req_uuid a) (req_body a) st))"
proof -
  from assms obtain k where m: "m = 3 + k" using le_Suc_ex by blast
  have three: "interleave bi a b [True, True, True] (Arrived, tb, st) =
     (Responded (fst (add_product bi (req_faults a) (req_uuid a) (req_body a) st)), tb,
      snd (add_product bi (req_faults a) (req_uuid a) (req_body a) st))"
    using add_product_steps[of bi a st] by (auto split: prod.splits)
  have "replicate m True = [True, True, True] @ replicate k True"
    by (simp add: m numeral_3_eq_3)
  then show ?thesis
    by (simp only: interleave_append three interleave_first_done)
qed

lemma interleave_second:
  assumes "3 \<le> n"
  shows "interleave bi a b (replicate n False) (ta, Arrived, st) =
     (ta, Responded (fst (add_product bi (req_faults b) (req_uuid b) (req_body b) st)),
      snd (add_product bi (req_faults b) (req_uuid b) (req_body b) st))"
proof -
  from assms obtain k where n: "n = 3 + k" using le_Suc_ex by blast
  have three: "interleave bi a b [False, False, False] (ta, Arrived, st) =
     (ta, Responded (fst (add_product bi (req_faults b) (req_uuid b) (req_body b) st)),
      snd (add_product bi (req_faults b) (req_uuid b) (req_body b) st))"
    using add_product_steps[of bi b st] by (auto split: prod.splits)
  have "replicate n False = [False, False, False] @ replicate k False"
    by (simp add: n numeral_3_eq_3)
  then show ?thesis
    by (simp only: interleave_append three interleave_second_done)
qed

lemma add_product_created:
  assumes "fst (add_product bi flt productId body st) = Json 201 q"
    and "listing bi st = JArr ps"
  shows "q = newProduct_of bi productId body
       \<and> constant_tsx (snd (add_product bi flt productId body st)) =
           Some (''export const products = '' @ JSON_stringify bi (JArr (q # ps)) @ '';'')"
proof -
  have valid: "truthy (field body ''title'')" "truthy (field body ''description'')"
    "truthy (field body ''images'')" "truthy (field body ''price'')"
    "truthy (field body ''category'')"
  proof -
    have "\<not> (\<not> truthy (field body ''title'') \<or> \<not> truthy (field body ''description'') \<or>
        \<not> truthy (field body ''images'') \<or> \<not> truthy (field body ''price'') \<or>
        \<not> truthy (field body ''category''))"
    proof
      assume "\<not> truthy (field body ''title'') \<or> \<not> truthy (field body ''description'') \<or>
        \<not> truthy (field body ''images'') \<or> \<not> truthy (field body ''price'') \<or>
        \<not> truthy (field body ''category'')"
      from add_product_invalid[OF this, of bi flt productId st] assms(1) show False by simp
    qed
    then show "truthy (field body ''title'')" "truthy (field body ''description'')"
      "truthy (field body ''images'')" "truthy (field body ''price'')"
      "truthy (field body ''category'')" by simp_all
  qed
  have nf: "write_fault flt = NoFault"
    using assms unfolding add_product_valid[OF valid]
    by (cases "write_fault flt")
       (auto simp: writeProducts_def writeProductsToConstant_def fs_writeFile_def
          split: prod.splits sum.splits if_splits)
  show ?thesis
    using assms unfolding add_product_valid[OF valid] nf writeProducts_ok
    by (auto simp: emit_def split: prod.splits sum.splits if_splits)
qed

text \<open>
  C1, as the code has it. The claim as stated fails: the handlers take no lock and are
  not queued, so the read-modify-write span of an Add can overlap another one, and the
  later write replaces the whole collection. The amended claim: when two Adds do not
  overlap (the first has answered before the second starts), the outcome is the
  sequential application of both in that order; if both are created and the artifact
  reads back as the first left it, the collection written last holds both products, the
  second before the first, before every product that was there.
\<close>

theorem adds_not_overlapping:
  assumes first: "3 \<le> m" and "3 \<le> n"
  shows "interleave bi a b (replicate m True @ replicate n False) (Arrived, Arrived, st) =
           (Responded (fst (add_product bi (req_faults a) (req_uuid a) (req_body a) st)),
            Responded (fst (add_product bi (req_faults b) (req_uuid b) (req_body b)
              (snd (add_product bi (req_faults a) (req_uuid a) (req_body a) st)))),
            snd (add_product bi (req_faults b) (req_uuid b) (req_body b)
              (snd (add_product bi (req_faults a) (req_uuid a) (req_body a) st))))
       \<and> (listing bi st = JArr ps
          \<and> fst (add_product bi (req_faults a) (req_uuid a) (req_body a) st) = Json 201 qa
          \<and> listing bi (snd (add_product bi (req_faults a) (req_uuid a) (req_body a) st)) =
              JArr (qa # ps)
          \<and> fst (add_product bi (req_faults b) (req_uuid b) (req_body b)
              (snd (add_product bi (req_faults a) (req_uuid a) (req_body a) st))) = Json 201 qb
          \<longrightarrow> constant_tsx (snd (snd (interleave bi a b (replicate m True @ replicate n False)
                 (Arrived, Arrived, st)))) =
               Some (''export const products = '' @ JSON_stringify bi (JArr (qb # qa # ps)) @ '';''))"
proof -
  have run: "interleave bi a b (replicate m True @ replicate n False) (Arrived, Arrived, st) =
           (Responded (fst (add_product bi (req_faults a) (req_uuid a) (req_body a) st)),
            Responded (fst (add_product bi (req_faults b) (req_uuid b) (req_body b)
              (snd (add_product bi (req_faults a) (req_uuid a) (req_body a) st)))),
            snd (add_product bi (req_faults b) (req_uuid b) (req_body b)
              (snd (add_product bi (req_faults a) (req_uuid a) (req_body a) st))))"
    by (simp only: interleave_append interleave_first[OF assms(1)] interleave_second[OF assms(2)])
  show ?thesis
    unfolding run using add_product_created by auto
qed

text \<open>Two Adds on an empty catalog, one after the other.\<close>

theorem adds_not_overlapping_witness:
  "interleave js request_a request_b [True, True, True, False, False, False]
      (Arrived, Arrived, empty_shop) =
     (Responded (Json 201 product_a), Responded (Json 201 product_b),
      snd (add_product js no_faults ''b'' (req_body request_b)
        (snd (add_product js no_faults ''a'' (req_body request_a) empty_shop))))
   \<and> constant_tsx (snd (snd (interleave js request_a request_b
        [True, True, True, False, False, False] (Arrived, Arrived, empty_shop)))) =
       Some (''export const products = '' @ stringify2 0 (JArr [product_b, product_a]) @ '';'')"
proof -
  have three: "(3::nat) \<le> 3" by simp
  have sched: "replicate 3 True @ replicate 3 False = [True, True, True, False, False, False]"
    by (simp add: numeral_3_eq_3)
  have ra: "req_faults request_a = no_faults" "req_uuid request_a = ''a''"
    and rb: "req_faults request_b = no_faults" "req_uuid request_b = ''b''"
    by (simp_all add: request_a_def request_b_def)
  have before: "listing js empty_shop = JArr []"
    by code_simp
  have first: "fst (add_product js no_faults ''a'' (req_body request_a) empty_shop) =
      Json 201 product_a"
    by code_simp
  have between: "listing js (snd (add_product js no_faults ''a'' (req_body request_a) empty_shop)) =
      JArr [product_a]"
    by code_simp
  have second: "fst (add_product js no_faults ''b'' (req_body request_b)
      (snd (add_product js no_faults ''a'' (req_body request_a) empty_shop))) = Json 201 product_b"
    by code_simp
  have printer: "JSON_stringify js = stringify2 0"
    by (simp add: js_def)
  note inst = adds_not_overlapping[OF three three, of js request_a request_b empty_shop "[]"
      product_a product_b, unfolded sched ra rb printer]
  have run: "interleave js request_a request_b [True, True, True, False, False, False]
      (Arrived, Arrived, empty_shop) =
     (Responded (Json 201 product_a), Responded (Json 201 product_b),
      snd (add_product js no_faults ''b'' (req_body request_b)
        (snd (add_product js no_faults ''a'' (req_body request_a) empty_shop))))"
    using inst[THEN conjunct1] by (simp only: first second)
  have stored: "constant_tsx (snd (snd (interleave js request_a request_b
        [True, True, True, False, False, False] (Arrived, Arrived, empty_shop)))) =
       Some (''export const products = '' @ stringify2 0 (JArr [product_b, product_a]) @ '';'')"
    by (rule mp[OF inst[THEN conjunct2]]) (intro conjI before first between second)
  from run stored show ?thesis by (rule conjI)
qed

text \<open>Against C1 as stated: both requests read the empty catalog before either writes.
  Both are answered 201, and the artifact lists the second product only, where the
  sequential application lists both.\<close>

theorem overlapping_adds_counterexample:
  "fst (interleave js request_a request_b [True, False, True, False, True, False]
          (Arrived, Arrived, empty_shop)) = Responded (Json 201 product_a)
   \<and> fst (snd (interleave js request_a request_b [True, False, True, False, True, False]
          (Arrived, Arrived, empty_shop))) = Responded (Json 201 product_b)
   \<and> listing js (snd (snd (interleave js request_a request_b [True, False, True, False, True, False]
          (Arrived, Arrived, empty_shop)))) = JArr [product_b]
   \<and> listing js (snd (add_product js no_faults ''b'' (req_body request_b)
          (snd (add_product js no_faults ''a'' (req_body request_a) empty_shop)))) =
       JArr [product_b, product_a]"
  by code_simp

section \<open>Download resolution\<close>

text \<open>
  C3. For every authorized download request on an existing order, resolution follows a
  strict precedence. If the order carries its own payload with non-empty data, that payload
  is returned, whatever \<^verbatim>\<open>productIds\<close> holds, and the blob store is not consulted.
  Otherwise, if the order is a product order with a non-empty \<^verbatim>\<open>productIds\<close>, exactly one
  lookup is made in the blob store, for the first id: when no blob exists for it the
  request fails with 404 "No deliverable file found.", and no later id is looked up.
  Otherwise the request fails with the same 404.
\<close>

theorem download_precedence:
  assumes found: "orders st i = Some ord"
    and authorized: "user ord = user_id u \<or> role u = ''admin''"
  shows "(truthy (snd (order_file ord)) \<longrightarrow>
            download_order u i st =
              (Attachment (if truthy (fst (order_file ord)) then fst (order_file ord)
                           else JStr ''download.zip'') (snd (order_file ord)),
               emit (OrderFind i) st))
       \<and> (\<not> truthy (snd (order_file ord)) \<and> isProductOrder ord \<and> productIds ord = p # rest \<longrightarrow>
            trace (snd (download_order u i st)) = trace st @ [OrderFind i, BlobFind p]
          \<and> (blobs st p = None \<longrightarrow>
               fst (download_order u i st) = Message 404 ''No deliverable file found.'')
          \<and> (blobs st p = Some f \<and> truthy (fileData f) \<longrightarrow>
               fst (download_order u i st) =
                 Attachment (if truthy (fileName f) then fileName f else JStr ''download.zip'')
                   (fileData f)))
       \<and> (\<not> truthy (snd (order_file ord)) \<and> (\<not> isProductOrder ord \<or> productIds ord = []) \<longrightarrow>
            download_order u i st =
              (Message 404 ''No deliverable file found.'', emit (OrderFind i) st))"
  using found authorized
  by (auto simp: download_order_def Order_findById_def resolve_file_def ProductFile_findOne_def
      emit_def Let_def split: prod.splits option.splits list.splits)

text \<open>The four orders of the examples, among them the order of the spec's test:
  \<^verbatim>\<open>productIds = [p1, p2]\<close>, no blob for \<^verbatim>\<open>p1\<close>, a blob for \<^verbatim>\<open>p2\<close>.\<close>

theorem download_precedence_witness:
  "fst (download_order \<lparr>user_id = ''u1'', role = ''customer''\<rparr> ''o1'' depot) =
     Message 404 ''No deliverable file found.''
   \<and> trace (snd (download_order \<lparr>user_id = ''u1'', role = ''customer''\<rparr> ''o1'' depot)) =
       [OrderFind ''o1'', BlobFind ''p1'']
   \<and> download_order \<lparr>user_id = ''u1'', role = ''customer''\<rparr> ''o2'' depot =
       (Attachment (JStr ''custom.zip'') (JStr ''UEsDBB==''), emit (OrderFind ''o2'') depot)
   \<and> fst (download_order \<lparr>user_id = ''root'', role = ''admin''\<rparr> ''o3'' depot) =
       Attachment (JStr ''two.zip'') (JStr ''UEsDBA=='')
   \<and> trace (snd (download_order \<lparr>user_id = ''root'', role = ''admin''\<rparr> ''o3'' depot)) =
       [OrderFind ''o3'', BlobFind ''p2'']
   \<and> download_order \<lparr>user_id = ''u1'', role = ''customer''\<rparr> ''o4'' depot =
       (Message 404 ''No deliverable file found.'', emit (OrderFind ''o4'') depot)"
proof -
  let ?u = "\<lparr>user_id = ''u1'', role = ''customer''\<rparr>"
  let ?admin = "\<lparr>user_id = ''root'', role = ''admin''\<rparr>"
  let ?o1 = "\<lparr>user = ''u1'', downloadableFile = None, isProductOrder = True,
             productIds = [''p1'', ''p2'']\<rparr>"
  let ?o2 = "\<lparr>user = ''u1'',
             downloadableFile = Some \<lparr>fileName = JStr ''custom.zip'', fileData = JStr ''UEsDBB==''\<rparr>,
             isProductOrder = True, productIds = [''p2'']\<rparr>"
  let ?o3 = "\<lparr>user = ''u2'', downloadableFile = None, isProductOrder = True,
             productIds = [''p2'', ''p1'']\<rparr>"
  let ?o4 = "\<lparr>user = ''u1'', downloadableFile = None, isProductOrder = False, productIds = []\<rparr>"
  have found: "orders depot ''o1'' = Some ?o1" "orders depot ''o2'' = Some ?o2"
    "orders depot ''o3'' = Some ?o3" "orders depot ''o4'' = Some ?o4"
    by (simp_all add: depot_def)
  have owner: "user ?o1 = user_id ?u \<or> role ?u = ''admin''"
    "user ?o2 = user_id ?u \<or> role ?u = ''admin''"
    "user ?o4 = user_id ?u \<or> role ?u = ''admin''"
    and admin: "user ?o3 = user_id ?admin \<or> role ?admin = ''admin''"
    by simp_all
  have store: "blobs depot ''p1'' = None"
    "blobs depot ''p2'' = Some \<lparr>fileName = JStr ''two.zip'', fileData = JStr ''UEsDBA==''\<rparr>"
    "trace depot = []"
    by (simp_all add: depot_def)
  from download_precedence[OF found(1) owner(1), of "''p1''" "[''p2'']"]
    download_precedence[OF found(2) owner(2)]
    download_precedence[OF found(3) admin, of "''p2''" "[''p1'']"
      "\<lparr>fileName = JStr ''two.zip'', fileData = JStr ''UEsDBA==''\<rparr>"]
    download_precedence[OF found(4) owner(3)]
    store
  show ?thesis by (simp add: order_file_def)
qed

end
